theory Spec2Isabelle
  imports Main "HOL-Library.Word"
begin

section \<open>makeChaff: chaff generation and three-pass shredding\<close>

text \<open>
  The program fills a directory with files of random data until the tracked free space
  is used up, then overwrites every file it created in three passes and removes it.
  The development follows \<^verbatim>\<open>chaff.go\<close> function by function; the low-level variant of
  \<^verbatim>\<open>shredFile\<close> that calls the \<^verbatim>\<open>unix\<close> package directly is modelled next to it.

  The operating system is an explicit parameter: every call that can fail reads its
  outcome from an environment record, and every call is logged as an event, so that a
  run of a function is its returned value together with the sequence of calls made.
\<close>

subsection \<open>Machine integers, errors and events\<close>

type_synonym u64 = "64 word"
type_synonym byte = "8 word"

text \<open>One error value per failing call; \<open>ShortWrite\<close> is the error \<^verbatim>\<open>shredFile\<close> makes itself.\<close>

datatype error =
    CreateError | EntropyError | WriteError | SyncError
  | OpenError | StatError | SeekError | ShortWrite | CloseError | RemoveError

text \<open>
  What a buffer handed to a write holds: a constant byte, or the bytes produced by the
  \<open>k\<close>-th read of the randomness source within the current function call, or, after
  a read of the randomness source that failed part of the way, \<open>m\<close> bytes of that read
  at the head and what the buffer held before in the rest.
\<close>

datatype source = Constant byte | Fresh nat | Partial nat nat source

datatype event =
    EvCreate string bool
  | EvOpen string bool
  | EvStat bool
  | EvSeek bool
  | EvRand nat nat bool
  | EvWrite source nat nat bool
  | EvSync bool
  | EvClose bool
  | EvRemove string bool

text \<open>
  \<open>EvRand k n ok\<close>: the \<open>k\<close>-th read of the randomness source, for \<open>n\<close> bytes.
  \<open>EvWrite s req n err\<close>: a write of \<open>req\<close> bytes holding \<open>s\<close> that reported \<open>n\<close> bytes
  written, with an error if \<open>err\<close>. The flag of the other events is success.
\<close>

definition chunkSize :: nat where
  "chunkSize = 1024 * 1024"

subsection \<open>generateChaffFile\<close>

text \<open>
  The outcomes of the calls made by one \<^verbatim>\<open>generateChaffFile\<close>: \<open>rand_ok i\<close> for the
  \<open>i\<close>-th \<^verbatim>\<open>rand.Read\<close>, \<open>write_res i req\<close> the pair (bytes reported, error reported) of
  the \<open>i\<close>-th \<^verbatim>\<open>file.Write\<close> of \<open>req\<close> bytes.
\<close>

record gen_env =
  create_ok :: bool
  rand_ok :: "nat \<Rightarrow> bool"
  write_res :: "nat \<Rightarrow> nat \<Rightarrow> nat \<times> bool"
  sync_ok :: bool

type_synonym gen_result = "(u64 \<times> u64 \<times> error option) \<times> event list"

definition emit :: "event list \<Rightarrow> ('a \<times> event list) option \<Rightarrow> ('a \<times> event list) option" where
  "emit evs r = map_option (\<lambda>(x, tr). (x, evs @ tr)) r"

text \<open>\<^verbatim>\<open>sizeBytes := uint64(sizeMB) * 1024 * 1024\<close>, in 64-bit unsigned arithmetic.\<close>

definition sizeBytes_of :: "u64 \<Rightarrow> u64" where
  "sizeBytes_of sizeMB = sizeMB * 1024 * 1024"

text \<open>
  The chunk loop \<^verbatim>\<open>for bytesWritten < sizeBytes\<close>, and after it the \<^verbatim>\<open>file.Sync\<close>.
  The first argument bounds the number of iterations: the loop of the source has no
  bound of its own when writes report zero bytes without an error, and \<open>None\<close> stands
  for a run that has not returned within the bound.
\<close>

fun write_chunks ::
  "nat \<Rightarrow> gen_env \<Rightarrow> u64 \<Rightarrow> u64 \<Rightarrow> nat \<Rightarrow> u64 \<Rightarrow> gen_result option" where
  "write_chunks fuel env sizeBytes availableSpace i bytesWritten =
     (if bytesWritten < sizeBytes then
        (case fuel of
           0 \<Rightarrow> None
         | Suc fuel' \<Rightarrow>
            (let remaining = sizeBytes - bytesWritten;
                 currentChunk = (if remaining < 1048576 then unat remaining else chunkSize)
             in if \<not> rand_ok env i then
                  Some ((availableSpace - bytesWritten, bytesWritten, Some EntropyError),
                        [EvRand i currentChunk False])
                else
                  (case write_res env i currentChunk of (written, werr) \<Rightarrow>
                     if werr then
                       Some ((availableSpace - bytesWritten, bytesWritten, Some WriteError),
                             [EvRand i currentChunk True,
                              EvWrite (Fresh i) currentChunk written True])
                     else
                       emit [EvRand i currentChunk True,
                             EvWrite (Fresh i) currentChunk written False]
                         (write_chunks fuel' env sizeBytes availableSpace (Suc i)
                            (bytesWritten + of_nat written)))))
      else if \<not> sync_ok env then
        Some ((availableSpace - bytesWritten, bytesWritten, Some SyncError), [EvSync False])
      else
        Some ((availableSpace - sizeBytes, bytesWritten, None), [EvSync True]))"

definition generateChaffFile ::
  "nat \<Rightarrow> gen_env \<Rightarrow> string \<Rightarrow> u64 \<Rightarrow> u64 \<Rightarrow> gen_result option" where
  "generateChaffFile fuel env filename sizeMB availableSpace =
     (let sizeBytes = (if sizeBytes_of sizeMB > availableSpace then availableSpace
                       else sizeBytes_of sizeMB)
      in if sizeBytes = 0 then Some ((availableSpace, 0, None), [])
         else if \<not> create_ok env then
           Some ((availableSpace, 0, Some CreateError), [EvCreate filename False])
         else
           map_option (\<lambda>(r, tr). (r, EvCreate filename True # tr @ [EvClose True]))
             (write_chunks fuel env sizeBytes availableSpace 0 0))"

subsection \<open>shredFile\<close>

text \<open>
  The three passes. The source numbers them 0, 1, 2 and switches on the number
  (\<^verbatim>\<open>passes := []int{0, 1, 2} // 0 -> 0xFF, 1 -> 0x00, 2 -> random\<close>); the low-level
  variant names them by the strings \<^verbatim>\<open>"0xFF"\<close>, \<^verbatim>\<open>"0x00"\<close>, \<^verbatim>\<open>"random"\<close>.
\<close>

datatype pass = PassFF | PassZero | PassRandom

definition passes :: "pass list" where
  "passes = [PassFF, PassZero, PassRandom]"

text \<open>
  The outcomes of the calls made by one \<^verbatim>\<open>shredFile\<close>. \<open>s_size\<close> is the size of the file
  at the path, which \<^verbatim>\<open>Stat\<close> reports when it succeeds. Seeks and syncs are indexed by
  the pass, writes by the pass and the iteration of the chunk loop, reads of the
  randomness source by their number within the call. The last two fields are read by
  the low-level variant only: whether \<^verbatim>\<open>/dev/urandom\<close> can be opened, and the pair (bytes
  read, error) of the \<open>i\<close>-th \<^verbatim>\<open>unix.Read\<close> from it for a given length.
\<close>

record shred_env =
  s_open_ok :: bool
  s_stat_ok :: bool
  s_size :: nat
  s_seek_ok :: "pass \<Rightarrow> bool"
  s_rand_ok :: "nat \<Rightarrow> bool"
  s_write_res :: "pass \<Rightarrow> nat \<Rightarrow> nat \<Rightarrow> nat \<times> bool"
  s_sync_ok :: "pass \<Rightarrow> bool"
  s_close_ok :: bool
  s_remove_ok :: bool
  s_urandom_open :: bool
  s_urandom_read :: "nat \<Rightarrow> nat \<Rightarrow> nat \<times> bool"

type_synonym shred_result = "error option \<times> event list"

definition prepend :: "event list \<Rightarrow> shred_result \<Rightarrow> shred_result" where
  "prepend evs r = (fst r, evs @ snd r)"

text \<open>
  The \<^verbatim>\<open>switch pass\<close> inside the chunk loop: what \<^verbatim>\<open>buf[:toWrite]\<close> holds after it in
  iteration \<open>j\<close> of a pass, and the read of the randomness source that the third pass
  makes for it.
\<close>

definition fill_source :: "pass \<Rightarrow> nat \<Rightarrow> source" where
  "fill_source p j =
     (case p of PassFF \<Rightarrow> Constant 0xFF | PassZero \<Rightarrow> Constant 0x00 | PassRandom \<Rightarrow> Fresh j)"

definition fill_events :: "pass \<Rightarrow> nat \<Rightarrow> nat \<Rightarrow> event list" where
  "fill_events p j n = (case p of PassRandom \<Rightarrow> [EvRand j n True] | _ \<Rightarrow> [])"

text \<open>
  The inner loop \<^verbatim>\<open>for remaining > 0\<close> of one pass; \<open>j\<close> counts its iterations. The
  buffer is filled anew in every iteration; a failed \<^verbatim>\<open>rand.Read\<close> returns its error
  before anything is written. The write is checked for an error and then for a short
  count.
\<close>

function shred_chunks :: "shred_env \<Rightarrow> pass \<Rightarrow> nat \<Rightarrow> nat \<Rightarrow> shred_result" where
  "shred_chunks env p j remaining =
     (if remaining > 0 then
        (let toWrite = (if remaining < chunkSize then remaining else chunkSize)
         in if p = PassRandom \<and> \<not> s_rand_ok env j then
              (Some EntropyError, [EvRand j toWrite False])
            else
              (case s_write_res env p j toWrite of (n, werr) \<Rightarrow>
                 if werr then
                   (Some WriteError,
                    fill_events p j toWrite @ [EvWrite (fill_source p j) toWrite n True])
                 else if n \<noteq> toWrite then
                   (Some ShortWrite,
                    fill_events p j toWrite @ [EvWrite (fill_source p j) toWrite n False])
                 else
                   prepend (fill_events p j toWrite @ [EvWrite (fill_source p j) toWrite n False])
                     (shred_chunks env p (Suc j) (remaining - toWrite))))
      else (None, []))"
  by pat_completeness auto
termination
  by (relation "measure (\<lambda>(env, p, j, remaining). remaining)") (auto simp: chunkSize_def)

text \<open>The loop \<^verbatim>\<open>for _, pass := range passes\<close>: seek to the start, write, sync.\<close>

fun shred_passes :: "shred_env \<Rightarrow> pass list \<Rightarrow> nat \<Rightarrow> shred_result" where
  "shred_passes env [] fsize = (None, [])"
| "shred_passes env (p # ps) fsize =
     (if \<not> s_seek_ok env p then (Some SeekError, [EvSeek False])
      else case shred_chunks env p 0 fsize of
             (Some e, tr) \<Rightarrow> (Some e, EvSeek True # tr)
           | (None, tr) \<Rightarrow>
               if \<not> s_sync_ok env p then (Some SyncError, EvSeek True # tr @ [EvSync False])
               else prepend (EvSeek True # tr @ [EvSync True]) (shred_passes env ps fsize))"

text \<open>
  \<^verbatim>\<open>shredFile\<close>. The deferred \<^verbatim>\<open>f.Close()\<close> runs at every return after a successful open;
  where the file has been closed before, that second close reports an error, which is
  dropped.
\<close>

definition shredFile :: "shred_env \<Rightarrow> string \<Rightarrow> shred_result" where
  "shredFile env path =
     (if \<not> s_open_ok env then
        (Some OpenError, [EvOpen path False, EvRemove path (s_remove_ok env)])
      else if \<not> s_stat_ok env then
        (Some StatError,
         [EvOpen path True, EvStat False, EvClose (s_close_ok env),
          EvRemove path (s_remove_ok env), EvClose False])
      else if s_size env = 0 then
        ((if s_remove_ok env then None else Some RemoveError),
         [EvOpen path True, EvStat True, EvClose (s_close_ok env),
          EvRemove path (s_remove_ok env), EvClose False])
      else
        (case shred_passes env passes (s_size env) of
           (Some e, tr) \<Rightarrow>
             (Some e, [EvOpen path True, EvStat True] @ tr @ [EvClose (s_close_ok env)])
         | (None, tr) \<Rightarrow>
             if \<not> s_close_ok env then
               (Some CloseError,
                [EvOpen path True, EvStat True] @ tr @ [EvClose False, EvClose False])
             else if \<not> s_remove_ok env then
               (Some RemoveError,
                [EvOpen path True, EvStat True] @ tr
                  @ [EvClose True, EvRemove path False, EvClose False])
             else
               (None,
                [EvOpen path True, EvStat True] @ tr
                  @ [EvClose True, EvRemove path True, EvClose False])))"

text \<open>
  \<^verbatim>\<open>shredFiles\<close>: every file of the list in turn; an error is printed and the loop goes on
  with the next file. \<open>senvs f\<close> holds the outcomes of the calls made for the file \<open>f\<close>.
\<close>

fun shredFiles :: "(string \<Rightarrow> shred_env) \<Rightarrow> string list \<Rightarrow> (string \<times> shred_result) list" where
  "shredFiles senvs [] = []"
| "shredFiles senvs (f # files) = (f, shredFile (senvs f) f) # shredFiles senvs files"

subsection \<open>shredFile, low-level variant\<close>

text \<open>
  The variant that calls \<^verbatim>\<open>unix.Open\<close>, \<^verbatim>\<open>unix.Write\<close>, \<^verbatim>\<open>unix.Fsync\<close> and
  \<^verbatim>\<open>unix.Unlink\<close> directly. It fills the whole buffer once per pass, before the chunk
  loop, drops the results of \<^verbatim>\<open>readUrandom\<close>, \<^verbatim>\<open>unix.Seek\<close>, \<^verbatim>\<open>unix.Fsync\<close> and
  \<^verbatim>\<open>unix.Unlink\<close>, and subtracts from \<^verbatim>\<open>remaining\<close> the count that the write reported.
  Its chunk loop has no bound when writes report zero bytes without an error, so it
  takes a bound on the iterations as \<open>write_chunks\<close> does. A write reports at most
  \<^verbatim>\<open>toWrite\<close> bytes, so \<^verbatim>\<open>remaining -= n\<close> stays at or above 0.

  \<open>buf\<close> is what the buffer holds.
\<close>

text \<open>
  \<^verbatim>\<open>readUrandom\<close>: open \<^verbatim>\<open>/dev/urandom\<close>, then read until the buffer is full. The result
  is whether it succeeded and how many bytes at the head of the buffer it has filled.
  Its loop has no bound when reads report zero bytes without an error.
\<close>

fun readUrandom_loop :: "nat \<Rightarrow> shred_env \<Rightarrow> nat \<Rightarrow> nat \<Rightarrow> nat \<Rightarrow> (bool \<times> nat) option" where
  "readUrandom_loop fuel env i filled len =
     (if filled < len then
        (case fuel of
           0 \<Rightarrow> None
         | Suc fuel' \<Rightarrow>
            (case s_urandom_read env i (len - filled) of (n, rerr) \<Rightarrow>
               if rerr then Some (False, filled)
               else readUrandom_loop fuel' env (Suc i) (filled + n) len))
      else Some (True, filled))"

definition readUrandom :: "nat \<Rightarrow> shred_env \<Rightarrow> nat \<Rightarrow> (bool \<times> nat) option" where
  "readUrandom fuel env len =
     (if \<not> s_urandom_open env then Some (False, 0) else readUrandom_loop fuel env 0 0 len)"

text \<open>
  The \<^verbatim>\<open>switch pass\<close> before the chunk loop: the whole buffer is filled with the constant
  of the pass, or \<^verbatim>\<open>readUrandom\<close> is called on it and its error dropped, so that after a
  failure the buffer holds what that call had read so far and, behind it, what it held
  before.
\<close>

definition unix_fill_buffer ::
  "nat \<Rightarrow> shred_env \<Rightarrow> source \<Rightarrow> pass \<Rightarrow> (source \<times> event list) option" where
  "unix_fill_buffer fuel env buf p =
     (case p of
        PassFF \<Rightarrow> Some (Constant 0xFF, [])
      | PassZero \<Rightarrow> Some (Constant 0x00, [])
      | PassRandom \<Rightarrow>
          (case readUrandom fuel env chunkSize of
             None \<Rightarrow> None
           | Some (ok, filled) \<Rightarrow>
               Some (if ok then Fresh 0
                     else if filled = 0 then buf
                     else Partial 0 filled buf,
                     [EvRand 0 chunkSize ok])))"

fun unix_chunks ::
  "nat \<Rightarrow> shred_env \<Rightarrow> pass \<Rightarrow> source \<Rightarrow> nat \<Rightarrow> nat \<Rightarrow> shred_result option" where
  "unix_chunks fuel env p buf j remaining =
     (if remaining > 0 then
        (case fuel of
           0 \<Rightarrow> None
         | Suc fuel' \<Rightarrow>
            (let toWrite = (if remaining < chunkSize then remaining else chunkSize)
             in case s_write_res env p j toWrite of (n, werr) \<Rightarrow>
                  if werr then Some (Some WriteError, [EvWrite buf toWrite n True])
                  else
                    emit [EvWrite buf toWrite n False]
                      (unix_chunks fuel' env p buf (Suc j) (remaining - n))))
      else Some (None, []))"

fun unix_passes ::
  "nat \<Rightarrow> shred_env \<Rightarrow> source \<Rightarrow> pass list \<Rightarrow> nat \<Rightarrow> shred_result option" where
  "unix_passes fuel env buf [] fsize = Some (None, [])"
| "unix_passes fuel env buf (p # ps) fsize =
     (case unix_fill_buffer fuel env buf p of
        None \<Rightarrow> None
      | Some (buf', evs) \<Rightarrow>
          (case unix_chunks fuel env p buf' 0 fsize of
             None \<Rightarrow> None
           | Some (Some e, tr) \<Rightarrow> Some (Some e, evs @ EvSeek (s_seek_ok env p) # tr)
           | Some (None, tr) \<Rightarrow>
               emit (evs @ EvSeek (s_seek_ok env p) # tr @ [EvSync (s_sync_ok env p)])
                 (unix_passes fuel env buf' ps fsize)))"

definition shredFile_unix :: "nat \<Rightarrow> shred_env \<Rightarrow> string \<Rightarrow> shred_result option" where
  "shredFile_unix fuel env path =
     (if \<not> s_open_ok env then
        Some (Some OpenError, [EvOpen path False, EvRemove path (s_remove_ok env)])
      else if \<not> s_stat_ok env then
        Some (Some StatError,
              [EvOpen path True, EvStat False, EvRemove path (s_remove_ok env),
               EvClose (s_close_ok env)])
      else if s_size env = 0 then
        Some (None,
              [EvOpen path True, EvStat True, EvRemove path (s_remove_ok env),
               EvClose (s_close_ok env)])
      else
        (case unix_passes fuel env (Constant 0x00) passes (s_size env) of
           None \<Rightarrow> None
         | Some (Some e, tr) \<Rightarrow>
             Some (Some e, [EvOpen path True, EvStat True] @ tr @ [EvClose (s_close_ok env)])
         | Some (None, tr) \<Rightarrow>
             Some (None,
                   [EvOpen path True, EvStat True] @ tr
                     @ [EvClose (s_close_ok env), EvRemove path (s_remove_ok env),
                        EvClose False])))"

subsection \<open>The fill loop of main\<close>

definition outputDir :: string where
  "outputDir = ''./chaff''"

definition fileSizeMB :: u64 where
  "fileSizeMB = 100"

definition filePrefix :: string where
  "filePrefix = ''chaff_''"

text \<open>\<^verbatim>\<open>%06d\<close> of a count: decimal digits, padded with zeros on the left to six.\<close>

fun decimal :: "nat \<Rightarrow> string" where
  "decimal n =
     (if n < 10 then [''0123456789'' ! n]
      else decimal (n div 10) @ [''0123456789'' ! (n mod 10)])"

definition pad6 :: "nat \<Rightarrow> string" where
  "pad6 n = replicate (6 - length (decimal n)) (CHR ''0'') @ decimal n"

text \<open>
  \<^verbatim>\<open>filepath.Join\<close> puts a separator between its arguments and cleans the result. Of the
  cleaning, the removal of a leading \<^verbatim>\<open>./\<close> is modelled: it is the only rule that applies
  to the paths this program builds.
\<close>

definition filepath_Join :: "string \<Rightarrow> string \<Rightarrow> string" where
  "filepath_Join dir name =
     (let p = dir @ ''/'' @ name in if take 2 p = ''./'' then drop 2 p else p)"

definition regularFilename :: "nat \<Rightarrow> string" where
  "regularFilename fileCount = filepath_Join outputDir (filePrefix @ pad6 fileCount @ ''.dat'')"

definition finalFilename :: string where
  "finalFilename = filepath_Join outputDir (filePrefix @ ''FINAL.dat'')"

text \<open>
  The variables of the loop. \<open>attempts\<close> is not a variable of the source: it is the
  history of the calls of \<^verbatim>\<open>generateChaffFile\<close> made so far, each with the file name and
  the byte count and error that the call returned.
\<close>

record fill_state =
  fileCount :: nat
  availableSpace :: u64
  createdFiles :: "string list"
  attempts :: "(string \<times> u64 \<times> error option) list"

datatype flow = Continue fill_state | Break fill_state

text \<open>
  One iteration of \<^verbatim>\<open>for availableSpace > 0\<close>. \<open>envs k\<close> holds the outcomes of the calls
  that \<^verbatim>\<open>generateChaffFile\<close> makes while the file counter is \<open>k\<close>; \<open>gfuel\<close> bounds its
  chunk loop.
\<close>

definition fill_body :: "nat \<Rightarrow> (nat \<Rightarrow> gen_env) \<Rightarrow> fill_state \<Rightarrow> flow option" where
  "fill_body gfuel envs st =
     (let filename = regularFilename (fileCount st)
      in if availableSpace st < 10 * 1024 * 1024 then
           (case generateChaffFile gfuel (envs (fileCount st)) finalFilename 1
                   (availableSpace st) of
              None \<Rightarrow> None
            | Some ((remainingSpace, bytesCreated, err), tr) \<Rightarrow>
                Some (Break (st\<lparr>
                  createdFiles :=
                    (if err \<noteq> None then createdFiles st
                     else if bytesCreated > 0 then createdFiles st @ [finalFilename]
                     else createdFiles st),
                  availableSpace := remainingSpace,
                  attempts := attempts st @ [(finalFilename, bytesCreated, err)]\<rparr>)))
         else
           (case generateChaffFile gfuel (envs (fileCount st)) filename fileSizeMB
                   (availableSpace st) of
              None \<Rightarrow> None
            | Some ((remainingSpace, bytesCreated, err), tr) \<Rightarrow>
                if err \<noteq> None then
                  Some (Continue (st\<lparr>
                    fileCount := fileCount st + 1,
                    attempts := attempts st @ [(filename, bytesCreated, err)]\<rparr>))
                else
                  Some (Continue (st\<lparr>
                    createdFiles :=
                      (if bytesCreated > 0 then createdFiles st @ [filename]
                       else createdFiles st),
                    availableSpace := remainingSpace,
                    fileCount := fileCount st + 1,
                    attempts := attempts st @ [(filename, bytesCreated, err)]\<rparr>))))"

text \<open>
  The loop. A file that fails leaves the tracked space as it was, so the loop of the
  source need not end; the first argument bounds the iterations.
\<close>

fun fill_loop :: "nat \<Rightarrow> nat \<Rightarrow> (nat \<Rightarrow> gen_env) \<Rightarrow> fill_state \<Rightarrow> fill_state option" where
  "fill_loop fuel gfuel envs st =
     (if availableSpace st > 0 then
        (case fuel of
           0 \<Rightarrow> None
         | Suc fuel' \<Rightarrow>
            (case fill_body gfuel envs st of
               None \<Rightarrow> None
             | Some (Break st') \<Rightarrow> Some st'
             | Some (Continue st') \<Rightarrow> fill_loop fuel' gfuel envs st'))
      else Some st)"

definition fill_init :: "u64 \<Rightarrow> fill_state" where
  "fill_init available =
     \<lparr>fileCount = 0, availableSpace = available, createdFiles = [], attempts = []\<rparr>"

subsection \<open>Conditions on the environment, measures of a run, example environments\<close>

text \<open>A write never reports more bytes than it was given.\<close>

definition write_sane :: "gen_env \<Rightarrow> bool" where
  "write_sane env = (\<forall>i req. fst (write_res env i req) \<le> req)"

text \<open>
  The contract of \<^verbatim>\<open>os.File.Write\<close>: it returns a non-nil error when the count differs
  from the length of the buffer.
\<close>

definition os_file_contract :: "gen_env \<Rightarrow> bool" where
  "os_file_contract env =
     (\<forall>i req. \<not> snd (write_res env i req) \<longrightarrow> fst (write_res env i req) = req)"

text \<open>Every call succeeds and every write is complete.\<close>

definition gen_all_ok :: "gen_env \<Rightarrow> bool" where
  "gen_all_ok env =
     (create_ok env \<and> (\<forall>i. rand_ok env i) \<and> (\<forall>i req. write_res env i req = (req, False))
      \<and> sync_ok env)"

text \<open>The bytes that the writes of a run put into the file, by their own report.\<close>

fun bytes_committed :: "event list \<Rightarrow> nat" where
  "bytes_committed [] = 0"
| "bytes_committed (EvWrite s req n err # tr) = n + bytes_committed tr"
| "bytes_committed (_ # tr) = bytes_committed tr"

definition genv_ok :: gen_env where
  "genv_ok = \<lparr>create_ok = True, rand_ok = (\<lambda>i. True),
              write_res = (\<lambda>i req. (req, False)), sync_ok = True\<rparr>"

text \<open>The first write puts two bytes into the file and then fails.\<close>

definition genv_partial :: gen_env where
  "genv_partial = \<lparr>create_ok = True, rand_ok = (\<lambda>i. True),
                   write_res = (\<lambda>i req. (2, True)), sync_ok = True\<rparr>"


fun is_remove :: "event \<Rightarrow> bool" where
  "is_remove (EvRemove path ok) = True"
| "is_remove _ = False"

text \<open>The run up to the first removal, and the syncs that succeeded.\<close>

definition before_remove :: "event list \<Rightarrow> event list" where
  "before_remove tr = takeWhile (\<lambda>ev. \<not> is_remove ev) tr"

definition syncs_completed :: "event list \<Rightarrow> nat" where
  "syncs_completed tr = length (filter (\<lambda>ev. ev = EvSync True) tr)"











text \<open>Example environments: a file of \<open>n\<close> bytes and an operating system that never fails.\<close>

definition senv_ok :: "nat \<Rightarrow> shred_env" where
  "senv_ok n =
     \<lparr>s_open_ok = True, s_stat_ok = True, s_size = n, s_seek_ok = (\<lambda>p. True),
      s_rand_ok = (\<lambda>k. True), s_write_res = (\<lambda>p j req. (req, False)),
      s_sync_ok = (\<lambda>p. True), s_close_ok = True, s_remove_ok = True,
      s_urandom_open = True, s_urandom_read = (\<lambda>i req. (req, False))\<rparr>"

text \<open>The file cannot be opened for writing, but can be removed.\<close>

definition senv_locked :: "nat \<Rightarrow> shred_env" where
  "senv_locked n = (senv_ok n)\<lparr>s_open_ok := False\<rparr>"

text \<open>Every write puts one byte into the file and reports no error.\<close>

definition senv_short :: "nat \<Rightarrow> shred_env" where
  "senv_short n = (senv_ok n)\<lparr>s_write_res := (\<lambda>p j req. (1, False))\<rparr>"

text \<open>The randomness source cannot be read.\<close>

definition senv_no_entropy :: "nat \<Rightarrow> shred_env" where
  "senv_no_entropy n = (senv_ok n)\<lparr>s_rand_ok := (\<lambda>k. False), s_urandom_open := False\<rparr>"

text \<open>\<^verbatim>\<open>/dev/urandom\<close> can be opened, gives two bytes and then fails.\<close>

definition senv_entropy_cut :: "nat \<Rightarrow> shred_env" where
  "senv_entropy_cut n =
     (senv_ok n)\<lparr>s_urandom_read := (\<lambda>i req. if i = 0 then (2, False) else (0, True))\<rparr>"

text \<open>No sync succeeds.\<close>

definition senv_no_sync :: "nat \<Rightarrow> shred_env" where
  "senv_no_sync n = (senv_ok n)\<lparr>s_sync_ok := (\<lambda>p. False)\<rparr>"

text \<open>Every write fails without putting a byte into the file.\<close>

definition senv_write_error :: "nat \<Rightarrow> shred_env" where
  "senv_write_error n = (senv_ok n)\<lparr>s_write_res := (\<lambda>p j req. (0, True))\<rparr>"

text \<open>The file can be opened, but its size cannot be read.\<close>

definition senv_no_stat :: "nat \<Rightarrow> shred_env" where
  "senv_no_stat n = (senv_ok n)\<lparr>s_stat_ok := False\<rparr>"

text \<open>
  The names that the history of attempts puts on record: those of the attempts that
  returned no error and a count above 0.
\<close>

definition recorded :: "(string \<times> u64 \<times> error option) list \<Rightarrow> string list" where
  "recorded atts = map fst (filter (\<lambda>(path, bytes, err). err = None \<and> 0 < bytes) atts)"

definition fill_inv :: "fill_state \<Rightarrow> bool" where
  "fill_inv st = (createdFiles st = recorded (attempts st))"

fun state_of :: "flow \<Rightarrow> fill_state" where
  "state_of (Continue st) = st"
| "state_of (Break st) = st"

text \<open>Every call of \<^verbatim>\<open>generateChaffFile\<close> that the loop can make returns without error.\<close>

definition gen_never_fails :: "nat \<Rightarrow> (nat \<Rightarrow> gen_env) \<Rightarrow> bool" where
  "gen_never_fails gfuel envs =
     (\<forall>k fn A. (\<exists>r b tr. generateChaffFile gfuel (envs k) fn fileSizeMB A = Some ((r, b, None), tr))
             \<and> (\<exists>r b tr. generateChaffFile gfuel (envs k) fn 1 A = Some ((r, b, None), tr)))"







section \<open>Properties of generateChaffFile\<close>

declare write_chunks.simps [simp del]

lemma bytes_committed_append:
  "bytes_committed (xs @ ys) = bytes_committed xs + bytes_committed ys"
  by (induction xs rule: bytes_committed.induct) auto

lemma unat_of_nat_small: "n \<le> unat (w::u64) \<Longrightarrow> unat (of_nat n :: u64) = n"
  by (metis le_unat_uoi)

lemma word_advance_le:
  fixes bw s :: u64
  assumes "bw \<le> s" "n \<le> unat (s - bw)"
  shows "bw + of_nat n \<le> s" "unat (bw + of_nat n) = unat bw + n"
proof -
  have d: "unat (s - bw) = unat s - unat bw" using assms(1) by (simp add: unat_sub)
  have n: "unat (of_nat n :: u64) = n" using assms(2) by (rule unat_of_nat_small)
  have le: "unat bw \<le> unat s" using assms(1) by (simp add: word_le_nat_alt)
  have lt: "unat s < 2 ^ 64" using unsigned_less [of s] by simp
  have "unat bw + unat (of_nat n :: u64) < 2 ^ LENGTH(64)" using d n le lt assms(2) by simp
  then have u: "unat (bw + of_nat n) = unat bw + unat (of_nat n :: u64)"
    by (rule unat_add_lem [THEN iffD1])
  show "unat (bw + of_nat n) = unat bw + n" using u n by simp
  then show "bw + of_nat n \<le> s" using d le assms(2) by (simp add: word_le_nat_alt)
qed

lemma currentChunk_le:
  "(if remaining < (1048576::u64) then unat remaining else chunkSize) \<le> unat remaining"
  by (auto simp: chunkSize_def word_less_nat_alt not_less word_le_nat_alt)

lemma write_chunks_done:
  "\<not> bw < sz \<Longrightarrow> write_chunks fuel env sz A i bw =
     (if \<not> sync_ok env then Some ((A - bw, bw, Some SyncError), [EvSync False])
      else Some ((A - sz, bw, None), [EvSync True]))"
  by (simp add: write_chunks.simps)

lemma write_chunks_0: "bw < sz \<Longrightarrow> write_chunks 0 env sz A i bw = None"
  by (simp add: write_chunks.simps)

lemma write_chunks_Suc:
  "bw < sz \<Longrightarrow> write_chunks (Suc fuel) env sz A i bw =
     (let currentChunk = (if sz - bw < 1048576 then unat (sz - bw) else chunkSize)
      in if \<not> rand_ok env i then
           Some ((A - bw, bw, Some EntropyError), [EvRand i currentChunk False])
         else
           (case write_res env i currentChunk of (written, werr) \<Rightarrow>
              if werr then
                Some ((A - bw, bw, Some WriteError),
                      [EvRand i currentChunk True, EvWrite (Fresh i) currentChunk written True])
              else
                emit [EvRand i currentChunk True, EvWrite (Fresh i) currentChunk written False]
                  (write_chunks fuel env sz A (Suc i) (bw + of_nat written))))"
  by (simp add: write_chunks.simps Let_def)

text \<open>
  The invariant of the chunk loop: the count never passes \<open>sz\<close>, an error return
  reports the space left after the counted bytes, a return without error has written
  \<open>sz\<close> bytes, and the count is the sum of what the writes reported unless the last
  write failed.
\<close>

lemma write_chunks_accounting:
  assumes "write_sane env"
  shows "bw \<le> sz \<Longrightarrow> write_chunks fuel env sz A i bw = Some ((r, b, e), tr) \<Longrightarrow>
         bw \<le> b \<and> b \<le> sz \<and> (e = None \<longrightarrow> b = sz \<and> r = A - sz) \<and> (e \<noteq> None \<longrightarrow> r = A - b) \<and>
         (e \<noteq> Some WriteError \<longrightarrow> unat bw + bytes_committed tr = unat b)"
proof (induction fuel arbitrary: i bw tr)
  case 0
  then show ?case
    by (cases "bw < sz") (auto simp: write_chunks_0 write_chunks_done split: if_splits)
next
  case (Suc fuel)
  show ?case
  proof (cases "bw < sz")
    case False
    with Suc.prems show ?thesis
      by (auto simp: write_chunks_done split: if_splits)
  next
    case True
    define c where "c = (if sz - bw < 1048576 then unat (sz - bw) else chunkSize)"
    have c_le: "c \<le> unat (sz - bw)" unfolding c_def by (rule currentChunk_le)
    obtain written werr where wr: "write_res env i c = (written, werr)"
      by (cases "write_res env i c")
    have w_le: "written \<le> c" using assms wr unfolding write_sane_def by (metis fst_conv)
    then have w_le': "written \<le> unat (sz - bw)" using c_le by simp
    note adv = word_advance_le [OF Suc.prems(1) w_le']
    show ?thesis
    proof (cases "rand_ok env i \<and> \<not> werr")
      case False
      with Suc.prems True wr show ?thesis
        by (auto simp: write_chunks_Suc c_def [symmetric] split: if_splits)
    next
      case ok: True
      from Suc.prems(2) True wr ok obtain tr' where
        rec: "write_chunks fuel env sz A (Suc i) (bw + of_nat written) = Some ((r, b, e), tr')"
        and tr: "tr = [EvRand i c True, EvWrite (Fresh i) c written False] @ tr'"
        by (auto simp: write_chunks_Suc c_def [symmetric] emit_def)
      from Suc.IH [OF adv(1) rec] adv(2) tr show ?thesis
        by (auto simp: word_le_nat_alt)
    qed
  qed
qed

text \<open>Under the contract of \<^verbatim>\<open>os.File.Write\<close> the loop returns within one iteration per chunk.\<close>

lemma write_chunks_returns:
  assumes "os_file_contract env"
  shows "bw \<le> sz \<Longrightarrow> unat (sz - bw) \<le> fuel * chunkSize \<Longrightarrow>
         \<exists>res. write_chunks fuel env sz A i bw = Some res"
proof (induction fuel arbitrary: i bw)
  case 0
  then have "\<not> bw < sz" by (simp add: unat_eq_0 word_less_nat_alt unat_sub word_le_nat_alt)
  then show ?case by (simp add: write_chunks_done)
next
  case (Suc fuel)
  show ?case
  proof (cases "bw < sz")
    case False
    then show ?thesis by (simp add: write_chunks_done)
  next
    case True
    define c where "c = (if sz - bw < 1048576 then unat (sz - bw) else chunkSize)"
    have c_le: "c \<le> unat (sz - bw)" unfolding c_def by (rule currentChunk_le)
    obtain written werr where wr: "write_res env i c = (written, werr)"
      by (cases "write_res env i c")
    show ?thesis
    proof (cases "rand_ok env i \<and> \<not> werr")
      case False
      with True wr show ?thesis
        by (auto simp: write_chunks_Suc c_def [symmetric])
    next
      case ok: True
      then have "written = c"
        using assms wr unfolding os_file_contract_def by (metis fst_conv snd_conv)
      note adv = word_advance_le [OF Suc.prems(1) c_le]
      have d: "unat (sz - (bw + of_nat c)) = unat (sz - bw) - c"
        using adv Suc.prems(1) by (simp add: unat_sub word_le_nat_alt)
      have "unat (sz - bw) - c \<le> fuel * chunkSize"
        using Suc.prems(2) by (auto simp: c_def word_less_nat_alt split: if_splits)
      with d have "unat (sz - (bw + of_nat c)) \<le> fuel * chunkSize" by simp
      from Suc.IH [OF adv(1) this] obtain res where
        "write_chunks fuel env sz A (Suc i) (bw + of_nat c) = Some res" by blast
      with True wr ok \<open>written = c\<close> show ?thesis
        by (auto simp: write_chunks_Suc c_def [symmetric] emit_def)
    qed
  qed
qed

lemma gen_all_ok_contract: "gen_all_ok env \<Longrightarrow> os_file_contract env"
  by (simp add: gen_all_ok_def os_file_contract_def)

lemma gen_all_ok_sane: "gen_all_ok env \<Longrightarrow> write_sane env"
  by (simp add: gen_all_ok_def write_sane_def)

text \<open>Where nothing fails, the only return is the one without error.\<close>

lemma write_chunks_no_error:
  assumes "gen_all_ok env"
  shows "write_chunks fuel env sz A i bw = Some ((r, b, e), tr) \<Longrightarrow> e = None"
proof (induction fuel arbitrary: i bw tr)
  case 0
  with assms show ?case
    by (cases "bw < sz") (auto simp: write_chunks_0 write_chunks_done gen_all_ok_def)
next
  case (Suc fuel)
  show ?case
  proof (cases "bw < sz")
    case False
    with Suc.prems assms show ?thesis
      by (auto simp: write_chunks_done gen_all_ok_def)
  next
    case True
    with Suc.prems assms obtain c tr' where
      "write_chunks fuel env sz A (Suc i) (bw + of_nat c) = Some ((r, b, e), tr')"
      by (auto simp: write_chunks_Suc gen_all_ok_def emit_def Let_def)
    then show ?thesis by (rule Suc.IH)
  qed
qed

lemma write_chunks_all_ok:
  assumes ok: "gen_all_ok env"
  shows "bw \<le> sz \<Longrightarrow> unat (sz - bw) \<le> fuel * chunkSize \<Longrightarrow>
         \<exists>tr. write_chunks fuel env sz A i bw = Some ((A - sz, sz, None), tr)
              \<and> unat bw + bytes_committed tr = unat sz"
proof -
  assume le: "bw \<le> sz" and fuel: "unat (sz - bw) \<le> fuel * chunkSize"
  from write_chunks_returns [OF gen_all_ok_contract [OF ok] le fuel]
  obtain r b e tr where wc: "write_chunks fuel env sz A i bw = Some ((r, b, e), tr)"
    by (metis prod_cases3 surj_pair)
  from write_chunks_no_error [OF ok wc] have e: "e = None" .
  from write_chunks_accounting [OF gen_all_ok_sane [OF ok] le wc] e wc
  show ?thesis by auto
qed

lemma min_word_if: "(if S > A then A else S) = min S (A::u64)"
  by (auto simp: min_def)

text \<open>The function with the capped size written as a minimum.\<close>

lemma generateChaffFile_unfold:
  "generateChaffFile fuel env filename sizeMB A =
     (if min (sizeBytes_of sizeMB) A = 0 then Some ((A, 0, None), [])
      else if \<not> create_ok env then Some ((A, 0, Some CreateError), [EvCreate filename False])
      else map_option (\<lambda>(r, tr). (r, EvCreate filename True # tr @ [EvClose True]))
             (write_chunks fuel env (min (sizeBytes_of sizeMB) A) A 0 0))"
  by (simp add: generateChaffFile_def Let_def min_word_if)

lemma gen_accounting:
  assumes sane: "write_sane env"
    and ret: "generateChaffFile fuel env filename sizeMB A = Some ((r, b, e), tr)"
  shows "r = A - b \<and> unat r + unat b = unat A \<and> b \<le> min (sizeBytes_of sizeMB) A
         \<and> (e = None \<longrightarrow> b = min (sizeBytes_of sizeMB) A)"
proof -
  define sz where "sz = min (sizeBytes_of sizeMB) A"
  have szA: "sz \<le> A" by (simp add: sz_def)
  have core: "r = A - b \<and> b \<le> sz \<and> (e = None \<longrightarrow> b = sz)"
  proof (cases "sz = 0 \<or> \<not> create_ok env")
    case True
    with ret show ?thesis
      by (auto simp: generateChaffFile_unfold sz_def [symmetric] split: if_splits)
  next
    case False
    with ret obtain tr' where
      wc: "write_chunks fuel env sz A 0 0 = Some ((r, b, e), tr')"
      by (auto simp: generateChaffFile_unfold sz_def [symmetric])
    from write_chunks_accounting [OF sane _ wc] show ?thesis by auto
  qed
  then have "b \<le> sz" by simp
  then have "b \<le> A" using szA by (rule order_trans)
  then have "unat (A - b) + unat b = unat A"
    by (simp add: unat_sub word_le_nat_alt)
  with core show ?thesis by (simp add: sz_def)
qed

text \<open>Under the contract of \<^verbatim>\<open>os.File.Write\<close> the function returns, given one unit of the
  bound per chunk.\<close>

lemma generateChaffFile_returns:
  assumes "os_file_contract env"
    and "unat (min (sizeBytes_of sizeMB) A) \<le> fuel * chunkSize"
  shows "\<exists>res. generateChaffFile fuel env filename sizeMB A = Some res"
proof -
  from assms(2) have "unat (min (sizeBytes_of sizeMB) A - 0) \<le> fuel * chunkSize" by simp
  from write_chunks_returns [OF assms(1) _ this, of A 0]
  show ?thesis by (auto simp: generateChaffFile_unfold)
qed

lemma genv_ok_all_ok: "gen_all_ok genv_ok"
  by (simp add: gen_all_ok_def genv_ok_def)

lemma gen_small:
  "generateChaffFile (Suc 0) genv_ok ''f'' 1 3 =
     Some ((0, 3, None),
           [EvCreate ''f'' True, EvRand 0 3 True, EvWrite (Fresh 0) 3 3 False,
            EvSync True, EvClose True])"
  by (simp add: generateChaffFile_unfold sizeBytes_of_def write_chunks_Suc write_chunks_done
        genv_ok_def emit_def)

text \<open>The product does not wrap for sizes below \<open>2 ^ 44\<close> MiB.\<close>

lemma sizeBytes_of_exact:
  assumes "unat sizeMB < 2 ^ 44"
  shows "unat (sizeBytes_of sizeMB) = unat sizeMB * 1048576"
proof -
  have "sizeBytes_of sizeMB = sizeMB * 1048576" by (simp add: sizeBytes_of_def)
  moreover have "unat sizeMB * unat (1048576 :: u64) < 2 ^ LENGTH(64)"
    using assms by simp
  then have "unat (sizeMB * 1048576) = unat sizeMB * unat (1048576 :: u64)"
    by (rule unat_mult_lem [THEN iffD1])
  ultimately show ?thesis by simp
qed

text \<open>The returned count is never more than the requested size in bytes.\<close>

lemma unat_min: "unat (min a b) = min (unat a) (unat (b::u64))"
  by (auto simp: min_def word_le_nat_alt)

lemma sizeBytes_of_le: "unat (sizeBytes_of sizeMB) \<le> unat sizeMB * 1048576"
proof -
  have eq: "sizeBytes_of sizeMB = sizeMB * 1048576" by (simp add: sizeBytes_of_def)
  have "unat (sizeMB * 1048576) = unat sizeMB * unat (1048576 :: u64) mod 2 ^ LENGTH(64)"
    by (rule unat_word_ariths)
  also have "\<dots> \<le> unat sizeMB * unat (1048576 :: u64)" by (rule mod_less_eq_dividend)
  finally have "unat (sizeMB * 1048576) \<le> unat sizeMB * 1048576" by simp
  then show ?thesis unfolding eq .
qed

text \<open>The writes of the chunk loop never put more into the file than the size it was given.\<close>

lemma write_chunks_committed_le:
  assumes "write_sane env"
  shows "bw \<le> sz \<Longrightarrow> write_chunks fuel env sz A i bw = Some ((r, b, e), tr) \<Longrightarrow>
         unat bw + bytes_committed tr \<le> unat sz"
proof (induction fuel arbitrary: i bw tr)
  case 0
  then show ?case
    by (cases "bw < sz")
       (auto simp: write_chunks_0 write_chunks_done word_le_nat_alt split: if_splits)
next
  case (Suc fuel)
  show ?case
  proof (cases "bw < sz")
    case False
    with Suc.prems show ?thesis
      by (auto simp: write_chunks_done word_le_nat_alt split: if_splits)
  next
    case True
    define c where "c = (if sz - bw < 1048576 then unat (sz - bw) else chunkSize)"
    have c_le: "c \<le> unat (sz - bw)" unfolding c_def by (rule currentChunk_le)
    obtain written werr where wr: "write_res env i c = (written, werr)"
      by (cases "write_res env i c")
    have w_le: "written \<le> c" using assms wr unfolding write_sane_def by (metis fst_conv)
    then have w_le': "written \<le> unat (sz - bw)" using c_le by simp
    note adv = word_advance_le [OF Suc.prems(1) w_le']
    have room: "unat bw + written \<le> unat sz"
      using adv by (simp add: word_le_nat_alt)
    show ?thesis
    proof (cases "rand_ok env i \<and> \<not> werr")
      case False
      with Suc.prems True wr room show ?thesis
        by (auto simp: write_chunks_Suc c_def [symmetric] word_le_nat_alt split: if_splits)
    next
      case ok: True
      from Suc.prems(2) True wr ok obtain tr' where
        rec: "write_chunks fuel env sz A (Suc i) (bw + of_nat written) = Some ((r, b, e), tr')"
        and tr: "tr = [EvRand i c True, EvWrite (Fresh i) c written False] @ tr'"
        by (auto simp: write_chunks_Suc c_def [symmetric] emit_def)
      from Suc.IH [OF adv(1) rec] adv(2) tr show ?thesis by simp
    qed
  qed
qed

text \<open>What the writes of a run put into the file, against what the call returns.\<close>

lemma gen_committed:
  assumes sane: "write_sane env"
    and ret: "generateChaffFile fuel env filename sizeMB A = Some ((r, b, e), tr)"
  shows "bytes_committed tr \<le> unat (min (sizeBytes_of sizeMB) A)
         \<and> (e \<noteq> Some WriteError \<longrightarrow> bytes_committed tr = unat b)"
proof -
  define sz where "sz = min (sizeBytes_of sizeMB) A"
  show ?thesis
  proof (cases "sz = 0 \<or> \<not> create_ok env")
    case True
    with ret show ?thesis
      by (auto simp: generateChaffFile_unfold sz_def [symmetric] split: if_splits)
  next
    case False
    with ret obtain tr' where
      wc: "write_chunks fuel env sz A 0 0 = Some ((r, b, e), tr')"
      and tr: "tr = EvCreate filename True # tr' @ [EvClose True]"
      by (auto simp: generateChaffFile_unfold sz_def [symmetric])
    from write_chunks_committed_le [OF sane _ wc] write_chunks_accounting [OF sane _ wc] tr
    show ?thesis by (simp add: bytes_committed_append sz_def)
  qed
qed

text \<open>The accounting of a run, in terms of the requested size.\<close>

lemma gen_accounting_nat:
  assumes sane: "write_sane env"
    and ret: "generateChaffFile fuel env filename sizeMB A = Some ((r, b, e), tr)"
  shows "r = A - b \<and> unat r + unat b = unat A \<and>
         unat b \<le> unat sizeMB * 1048576 \<and>
         bytes_committed tr \<le> unat A \<and> bytes_committed tr \<le> unat sizeMB * 1048576 \<and>
         (e \<noteq> Some WriteError \<longrightarrow> bytes_committed tr = unat b) \<and>
         (e = None \<and> unat sizeMB < 2 ^ 44 \<longrightarrow>
            unat b = min (unat sizeMB * 1048576) (unat A))"
proof -
  note a = gen_accounting [OF sane ret] and c = gen_committed [OF sane ret]
  have m: "unat (min (sizeBytes_of sizeMB) A) = min (unat (sizeBytes_of sizeMB)) (unat A)"
    by (rule unat_min)
  from a have bm: "unat b \<le> unat (min (sizeBytes_of sizeMB) A)"
    by (simp add: word_le_nat_alt)
  have exact: "unat sizeMB < 2 ^ 44 \<Longrightarrow> unat (sizeBytes_of sizeMB) = unat sizeMB * 1048576"
    by (rule sizeBytes_of_exact)
  from a c bm m sizeBytes_of_le [of sizeMB] exact show ?thesis
    by auto
qed

text \<open>
  Claim C3, as the code has it. With no space available \<^verbatim>\<open>generateChaffFile\<close> makes no
  call at all (no file is created) and returns the available space unchanged, a count
  of 0 and no error, whatever the requested size. For a requested size below
  \<open>2 ^ 44\<close> MiB, the sizes whose byte count fits the 64 bits that hold it, a return
  without error has written exactly the minimum of the requested size in bytes,
  \<open>sizeMB * 1048576\<close>, and the available space: by the returned count, by the returned
  remaining space and by the writes of the run. Where every call succeeds the function
  does return so. The environment is one in which a write never reports more bytes than
  it was given.
\<close>

theorem generateChaffFile_effective_size:
  assumes sane: "write_sane env"
  shows "generateChaffFile fuel env filename sizeMB 0 = Some ((0, 0, None), []) \<and>
         (unat sizeMB < 2 ^ 44 \<and>
          generateChaffFile fuel env filename sizeMB A = Some ((r, b, None), tr) \<longrightarrow>
            unat b = min (unat sizeMB * 1048576) (unat A) \<and>
            unat r = unat A - min (unat sizeMB * 1048576) (unat A) \<and>
            bytes_committed tr = min (unat sizeMB * 1048576) (unat A)) \<and>
         (unat sizeMB < 2 ^ 44 \<and> gen_all_ok env \<and>
          min (unat sizeMB * 1048576) (unat A) \<le> fuel * chunkSize \<longrightarrow>
            (\<exists>r' b' tr'. generateChaffFile fuel env filename sizeMB A = Some ((r', b', None), tr')
               \<and> unat b' = min (unat sizeMB * 1048576) (unat A)))"
proof (intro conjI impI)
  show "generateChaffFile fuel env filename sizeMB 0 = Some ((0, 0, None), [])"
    by (simp add: generateChaffFile_unfold)
next
  assume h: "unat sizeMB < 2 ^ 44 \<and>
          generateChaffFile fuel env filename sizeMB A = Some ((r, b, None), tr)"
  then have ret: "generateChaffFile fuel env filename sizeMB A = Some ((r, b, None), tr)"
    and small: "unat sizeMB < 2 ^ 44" by simp_all
  from gen_accounting_nat [OF sane ret] small
  show "unat b = min (unat sizeMB * 1048576) (unat A)"
    "unat r = unat A - min (unat sizeMB * 1048576) (unat A)"
    "bytes_committed tr = min (unat sizeMB * 1048576) (unat A)"
    by auto
next
  assume h: "unat sizeMB < 2 ^ 44 \<and> gen_all_ok env \<and>
          min (unat sizeMB * 1048576) (unat A) \<le> fuel * chunkSize"
  then have small: "unat sizeMB < 2 ^ 44" and ok: "gen_all_ok env"
    and fuel: "min (unat sizeMB * 1048576) (unat A) \<le> fuel * chunkSize" by simp_all
  define sz where "sz = min (sizeBytes_of sizeMB) A"
  have szn: "unat sz = min (unat sizeMB * 1048576) (unat A)"
    by (simp add: sz_def unat_min sizeBytes_of_exact [OF small])
  with fuel have f: "unat (sz - 0) \<le> fuel * chunkSize" by simp
  from write_chunks_all_ok [OF ok _ f, of A 0] obtain tr' where
    "write_chunks fuel env sz A 0 0 = Some ((A - sz, sz, None), tr')" by auto
  with ok have "\<exists>tr'. generateChaffFile fuel env filename sizeMB A = Some ((A - sz, sz, None), tr')"
    by (auto simp: generateChaffFile_unfold sz_def [symmetric] gen_all_ok_def)
  with szn show "\<exists>r' b' tr'. generateChaffFile fuel env filename sizeMB A
                   = Some ((r', b', None), tr')
               \<and> unat b' = min (unat sizeMB * 1048576) (unat A)"
    by auto
qed

theorem generateChaffFile_effective_size_witness:
  "write_sane genv_ok \<and> gen_all_ok genv_ok \<and> unat (1::u64) < 2 ^ 44 \<and>
   min (unat (1::u64) * 1048576) (unat (3::u64)) \<le> Suc 0 * chunkSize \<and>
   generateChaffFile (Suc 0) genv_ok ''f'' 1 0 = Some ((0, 0, None), []) \<and>
   generateChaffFile (Suc 0) genv_ok ''f'' 1 3 =
     Some ((0, 3, None),
           [EvCreate ''f'' True, EvRand 0 3 True, EvWrite (Fresh 0) 3 3 False,
            EvSync True, EvClose True]) \<and>
   unat (3::u64) = min (unat (1::u64) * 1048576) (unat (3::u64)) \<and>
   unat (0::u64) = unat (3::u64) - min (unat (1::u64) * 1048576) (unat (3::u64)) \<and>
   bytes_committed [EvCreate ''f'' True, EvRand 0 3 True, EvWrite (Fresh 0) 3 3 False,
            EvSync True, EvClose True] = min (unat (1::u64) * 1048576) (unat (3::u64))"
  using generateChaffFile_effective_size [OF gen_all_ok_sane [OF genv_ok_all_ok],
      of "Suc 0" "''f''" 1 3 0 3
         "[EvCreate ''f'' True, EvRand 0 3 True, EvWrite (Fresh 0) 3 3 False,
            EvSync True, EvClose True]"]
    gen_all_ok_sane [OF genv_ok_all_ok] genv_ok_all_ok gen_small
  by (simp add: chunkSize_def)

text \<open>
  Claim C3 as stated fails for a requested size of \<open>2 ^ 44\<close> MiB: the product
  \<^verbatim>\<open>uint64(sizeMB) * 1024 * 1024\<close> is 0 in 64 bits, so with 5 bytes available the call
  creates no file and writes nothing, where the minimum of the requested size and the
  available space is 5.
\<close>

theorem generateChaffFile_size_wraps:
  "generateChaffFile (Suc 0) genv_ok ''f'' 17592186044416 5 = Some ((5, 0, None), []) \<and>
   min (unat (17592186044416::u64) * 1048576) (unat (5::u64)) = 5"
  by (simp add: generateChaffFile_unfold sizeBytes_of_def)

text \<open>
  Claim C9, as the code has it. On every return of \<^verbatim>\<open>generateChaffFile\<close>, with or
  without an error, the returned remaining space is the available space minus the
  returned count (the subtraction does not wrap: the two add up to the available
  space). The count is never more than the requested size in bytes, \<open>sizeMB * 1048576\<close>,
  and the bytes that the writes of the run have put into the file are never more than
  that size nor than the available space. On every return other than a write error the
  count is exactly the bytes put into the file. On a return without error, for a
  requested size below \<open>2 ^ 44\<close> MiB, the count is exactly the minimum of the requested
  size in bytes and the available space. The environment is one in which a write never
  reports more bytes than it was given.
\<close>

theorem generateChaffFile_accounting:
  assumes "write_sane env"
    and "generateChaffFile fuel env filename sizeMB A = Some ((r, b, e), tr)"
  shows "r = A - b \<and> unat r + unat b = unat A \<and>
         unat b \<le> unat sizeMB * 1048576 \<and>
         bytes_committed tr \<le> unat A \<and> bytes_committed tr \<le> unat sizeMB * 1048576 \<and>
         (e \<noteq> Some WriteError \<longrightarrow> bytes_committed tr = unat b) \<and>
         (e = None \<and> unat sizeMB < 2 ^ 44 \<longrightarrow>
            unat b = min (unat sizeMB * 1048576) (unat A))"
  using assms by (rule gen_accounting_nat)

theorem generateChaffFile_accounting_witness:
  "write_sane genv_ok \<and>
   generateChaffFile (Suc 0) genv_ok ''f'' 1 3 =
     Some ((0, 3, None),
           [EvCreate ''f'' True, EvRand 0 3 True, EvWrite (Fresh 0) 3 3 False,
            EvSync True, EvClose True]) \<and>
   (0::u64) = 3 - 3 \<and> unat (0::u64) + unat (3::u64) = unat (3::u64) \<and>
   unat (3::u64) \<le> unat (1::u64) * 1048576 \<and>
   bytes_committed [EvCreate ''f'' True, EvRand 0 3 True, EvWrite (Fresh 0) 3 3 False,
            EvSync True, EvClose True] = unat (3::u64) \<and>
   unat (1::u64) < 2 ^ 44 \<and>
   unat (3::u64) = min (unat (1::u64) * 1048576) (unat (3::u64))"
  using generateChaffFile_accounting [OF gen_all_ok_sane [OF genv_ok_all_ok] gen_small]
    gen_all_ok_sane [OF genv_ok_all_ok] gen_small
  by simp

text \<open>
  Claim C9 as stated fails for a requested size of \<open>2 ^ 45\<close> MiB: the product is 0 in
  64 bits, and with 7 bytes available the call returns without error and a count of 0,
  where the minimum of the requested size and the available space is 7.
\<close>

theorem generateChaffFile_success_below_target:
  "generateChaffFile (Suc 0) genv_ok ''f'' 35184372088832 7 = Some ((7, 0, None), []) \<and>
   min (unat (35184372088832::u64) * 1048576) (unat (7::u64)) = 7"
  by (simp add: generateChaffFile_unfold sizeBytes_of_def)

text \<open>Under the contract of \<^verbatim>\<open>os.File.Write\<close>, a write with a short count ends the run
  with the write error.\<close>

lemma write_chunks_short_write:
  assumes c: "os_file_contract env"
  shows "write_chunks fuel env sz A i bw = Some ((r, b, e), tr) \<Longrightarrow>
         EvWrite s req n err \<in> set tr \<Longrightarrow> n \<noteq> req \<Longrightarrow> e = Some WriteError \<and> err"
proof (induction fuel arbitrary: i bw tr)
  case 0
  then show ?case
    by (cases "bw < sz") (auto simp: write_chunks_0 write_chunks_done split: if_splits)
next
  case (Suc fuel)
  show ?case
  proof (cases "bw < sz")
    case False
    with Suc.prems show ?thesis by (auto simp: write_chunks_done split: if_splits)
  next
    case True
    define k where "k = (if sz - bw < 1048576 then unat (sz - bw) else chunkSize)"
    obtain written werr where wr: "write_res env i k = (written, werr)"
      by (cases "write_res env i k")
    show ?thesis
    proof (cases "rand_ok env i \<and> \<not> werr")
      case False
      with Suc.prems True wr show ?thesis
        by (auto simp: write_chunks_Suc k_def [symmetric] split: if_splits)
    next
      case ok: True
      then have full: "written = k"
        using c wr unfolding os_file_contract_def by (metis fst_conv snd_conv)
      from Suc.prems(1) True wr ok obtain tr' where
        rec: "write_chunks fuel env sz A (Suc i) (bw + of_nat written) = Some ((r, b, e), tr')"
        and tr: "tr = [EvRand i k True, EvWrite (Fresh i) k written False] @ tr'"
        by (auto simp: write_chunks_Suc k_def [symmetric] emit_def)
      from Suc.prems(2,3) tr full have "EvWrite s req n err \<in> set tr'" by auto
      from Suc.IH [OF rec this Suc.prems(3)] show ?thesis .
    qed
  qed
qed

lemma generateChaffFile_short_write:
  assumes "os_file_contract env"
    and "generateChaffFile fuel env filename sizeMB A = Some ((r, b, e), tr)"
    and "EvWrite s req n err \<in> set tr" and "n \<noteq> req"
  shows "e = Some WriteError \<and> err"
proof -
  from assms(2,3) obtain tr' where
    wc: "write_chunks fuel env (min (sizeBytes_of sizeMB) A) A 0 0 = Some ((r, b, e), tr')"
    and tr: "tr = EvCreate filename True # tr' @ [EvClose True]"
    by (auto simp: generateChaffFile_unfold split: if_splits)
  from assms(3) tr have "EvWrite s req n err \<in> set tr'" by auto
  from write_chunks_short_write [OF assms(1) wc this assms(4)] show ?thesis .
qed

text \<open>A failed read of the randomness source ends the run with that error.\<close>

lemma write_chunks_entropy:
  "write_chunks fuel env sz A i bw = Some ((r, b, e), tr) \<Longrightarrow>
   EvRand k n False \<in> set tr \<Longrightarrow> e = Some EntropyError \<and> last tr = EvRand k n False"
proof (induction fuel arbitrary: i bw tr)
  case 0
  then show ?case
    by (cases "bw < sz") (auto simp: write_chunks_0 write_chunks_done split: if_splits)
next
  case (Suc fuel)
  show ?case
  proof (cases "bw < sz")
    case False
    with Suc.prems show ?thesis by (auto simp: write_chunks_done split: if_splits)
  next
    case True
    define c where "c = (if sz - bw < 1048576 then unat (sz - bw) else chunkSize)"
    obtain written werr where wr: "write_res env i c = (written, werr)"
      by (cases "write_res env i c")
    show ?thesis
    proof (cases "rand_ok env i \<and> \<not> werr")
      case False
      with Suc.prems True wr show ?thesis
        by (auto simp: write_chunks_Suc c_def [symmetric] split: if_splits)
    next
      case ok: True
      from Suc.prems(1) True wr ok obtain tr' where
        rec: "write_chunks fuel env sz A (Suc i) (bw + of_nat written) = Some ((r, b, e), tr')"
        and tr: "tr = [EvRand i c True, EvWrite (Fresh i) c written False] @ tr'"
        by (auto simp: write_chunks_Suc c_def [symmetric] emit_def)
      from Suc.prems(2) tr have m: "EvRand k n False \<in> set tr'" by auto
      then have "tr' \<noteq> []" by auto
      with Suc.IH [OF rec m] tr show ?thesis by simp
    qed
  qed
qed

lemma generateChaffFile_entropy:
  assumes "generateChaffFile fuel env filename sizeMB A = Some ((r, b, e), tr)"
    and "EvRand k n False \<in> set tr"
  shows "e = Some EntropyError"
proof -
  from assms obtain tr' where
    wc: "write_chunks fuel env (min (sizeBytes_of sizeMB) A) A 0 0 = Some ((r, b, e), tr')"
    and tr: "tr = EvCreate filename True # tr' @ [EvClose True]"
    by (auto simp: generateChaffFile_unfold split: if_splits)
  from assms(2) tr have "EvRand k n False \<in> set tr'" by auto
  from write_chunks_entropy [OF wc this] show ?thesis by simp
qed

text \<open>
  Claim C5. A chunk write that puts part of its buffer into the file and then fails
  makes \<^verbatim>\<open>generateChaffFile\<close> return the error at once, but the count it returns leaves
  out the bytes of that write: here two bytes are in the file, and the function reports
  0 bytes written and all 5 bytes of space still available.
\<close>

theorem generateChaffFile_partial_write_uncounted:
  "generateChaffFile (Suc 0) genv_partial ''f'' 1 5 =
     Some ((5, 0, Some WriteError),
           [EvCreate ''f'' True, EvRand 0 5 True, EvWrite (Fresh 0) 5 2 True, EvClose True]) \<and>
   bytes_committed
     [EvCreate ''f'' True, EvRand 0 5 True, EvWrite (Fresh 0) 5 2 True, EvClose True] = 2"
  by (simp add: generateChaffFile_unfold sizeBytes_of_def write_chunks_Suc genv_partial_def)

section \<open>Properties of shredFile and of its low-level variant\<close>

declare shred_chunks.simps [simp del]

lemma shred_chunks_zero: "shred_chunks env p j 0 = (None, [])"
  by (simp add: shred_chunks.simps)

lemma shred_chunks_step:
  assumes "0 < rem"
  shows "shred_chunks env p j rem =
     (let toWrite = min rem chunkSize;
          n = fst (s_write_res env p j toWrite); werr = snd (s_write_res env p j toWrite)
      in if p = PassRandom \<and> \<not> s_rand_ok env j then (Some EntropyError, [EvRand j toWrite False])
         else if werr then
           (Some WriteError, fill_events p j toWrite @ [EvWrite (fill_source p j) toWrite n True])
         else if n \<noteq> toWrite then
           (Some ShortWrite, fill_events p j toWrite @ [EvWrite (fill_source p j) toWrite n False])
         else
           prepend (fill_events p j toWrite @ [EvWrite (fill_source p j) toWrite n False])
             (shred_chunks env p (Suc j) (rem - toWrite)))"
proof -
  have m: "(if rem < chunkSize then rem else chunkSize) = min rem chunkSize" by (simp add: min_def)
  show ?thesis
    using assms
    by (subst shred_chunks.simps)
       (simp add: m Let_def split: prod.splits)
qed

lemma min_chunk_pos: "0 < rem \<Longrightarrow> 0 < min rem chunkSize"
  by (simp add: chunkSize_def)

lemma shred_chunks_quiet:
  "ev \<in> set (snd (shred_chunks env p j rem)) \<Longrightarrow> \<not> is_remove ev \<and> ev \<noteq> EvSync True"
proof (induction rem arbitrary: j rule: less_induct)
  case (less rem)
  show ?case
  proof (cases "0 < rem")
    case False
    with less.prems show ?thesis by (simp add: shred_chunks_zero)
  next
    case True
    have dec: "rem - min rem chunkSize < rem" using True min_chunk_pos [OF True] by simp
    from less.prems less.IH [OF dec] show ?thesis
      by (auto simp: shred_chunks_step [OF True] Let_def prepend_def fill_events_def
          split: if_splits pass.splits)
  qed
qed

lemma shred_chunks_complete:
  "shred_chunks env p j rem = (None, tr) \<Longrightarrow> bytes_committed tr = rem"
proof (induction rem arbitrary: j tr rule: less_induct)
  case (less rem)
  show ?case
  proof (cases "0 < rem")
    case False
    with less.prems show ?thesis by (simp add: shred_chunks_zero)
  next
    case True
    have dec: "rem - min rem chunkSize < rem" using True min_chunk_pos [OF True] by simp
    obtain e' tr' where rec: "shred_chunks env p (Suc j) (rem - min rem chunkSize) = (e', tr')"
      by (cases "shred_chunks env p (Suc j) (rem - min rem chunkSize)")
    from less.prems rec have e': "e' = None"
      and tr: "tr = fill_events p j (min rem chunkSize)
                 @ [EvWrite (fill_source p j) (min rem chunkSize) (min rem chunkSize) False] @ tr'"
      by (auto simp: shred_chunks_step [OF True] Let_def prepend_def split: if_splits)
    from less.IH [OF dec] rec e' have "bytes_committed tr' = rem - min rem chunkSize" by simp
    with tr show ?thesis
      by (auto simp: bytes_committed_append fill_events_def split: pass.splits)
  qed
qed

lemma shred_chunks_bad_write:
  "shred_chunks env p j rem = (e, tr) \<Longrightarrow> EvWrite s req n err \<in> set tr \<Longrightarrow> n \<noteq> req \<or> err
   \<Longrightarrow> e \<noteq> None"
proof (induction rem arbitrary: j tr e rule: less_induct)
  case (less rem)
  show ?case
  proof (cases "0 < rem")
    case False
    with less.prems show ?thesis by (simp add: shred_chunks_zero)
  next
    case True
    have dec: "rem - min rem chunkSize < rem" using True min_chunk_pos [OF True] by simp
    obtain e' tr' where rec: "shred_chunks env p (Suc j) (rem - min rem chunkSize) = (e', tr')"
      by (cases "shred_chunks env p (Suc j) (rem - min rem chunkSize)")
    from less.prems rec less.IH [OF dec rec] show ?thesis
      by (auto simp: shred_chunks_step [OF True] Let_def prepend_def fill_events_def
          split: if_splits pass.splits)
  qed
qed





lemma shred_passes_quiet:
  "ev \<in> set (snd (shred_passes env ps N)) \<Longrightarrow> \<not> is_remove ev"
proof (induction ps)
  case Nil
  then show ?case by simp
next
  case (Cons p ps)
  obtain e tr where c: "shred_chunks env p 0 N = (e, tr)" by (cases "shred_chunks env p 0 N")
  have q: "\<And>ev. ev \<in> set tr \<Longrightarrow> \<not> is_remove ev"
    using shred_chunks_quiet [of _ env p 0 N] c by simp
  from Cons c q show ?case
    by (auto simp: prepend_def split: if_splits option.splits)
qed

lemma syncs_completed_append:
  "syncs_completed (xs @ ys) = syncs_completed xs + syncs_completed ys"
  by (simp add: syncs_completed_def)

lemma syncs_completed_quiet:
  "(\<And>ev. ev \<in> set tr \<Longrightarrow> ev \<noteq> EvSync True) \<Longrightarrow> syncs_completed tr = 0"
  by (auto simp: syncs_completed_def filter_empty_conv)

lemma shred_passes_complete:
  "shred_passes env ps N = (None, tr) \<Longrightarrow>
     bytes_committed tr = length ps * N \<and> syncs_completed tr = length ps"
proof (induction ps arbitrary: tr)
  case Nil
  then show ?case by (simp add: syncs_completed_def)
next
  case (Cons p ps)
  obtain e trc where c: "shred_chunks env p 0 N = (e, trc)" by (cases "shred_chunks env p 0 N")
  obtain e' tr' where rec: "shred_passes env ps N = (e', tr')" by (cases "shred_passes env ps N")
  from Cons.prems c rec have e: "e = None" and e': "e' = None"
    and tr: "tr = (EvSeek True # trc @ [EvSync True]) @ tr'"
    by (auto simp: prepend_def split: if_splits option.splits)
  have b: "bytes_committed trc = N" using shred_chunks_complete c e by simp
  have s: "syncs_completed trc = 0"
    using shred_chunks_quiet [of _ env p 0 N] c by (intro syncs_completed_quiet) simp
  from Cons.IH rec e' have "bytes_committed tr' = length ps * N \<and> syncs_completed tr' = length ps"
    by simp
  with tr b s show ?case
    by (simp add: bytes_committed_append syncs_completed_append)
       (simp add: syncs_completed_def)
qed

lemma shred_passes_bad_write:
  "shred_passes env ps N = (e, tr) \<Longrightarrow> EvWrite s req n err \<in> set tr \<Longrightarrow> n \<noteq> req \<or> err
   \<Longrightarrow> e \<noteq> None"
proof (induction ps arbitrary: tr e)
  case Nil
  then show ?case by simp
next
  case (Cons p ps)
  obtain ec trc where c: "shred_chunks env p 0 N = (ec, trc)" by (cases "shred_chunks env p 0 N")
  obtain e' tr' where rec: "shred_passes env ps N = (e', tr')" by (cases "shred_passes env ps N")
  show ?case
  proof (cases "s_seek_ok env p \<and> ec = None \<and> s_sync_ok env p")
    case False
    with Cons.prems(1) c show ?thesis
      by (auto simp: prepend_def split: if_splits option.splits)
  next
    case True
    with Cons.prems(1) c rec have e: "e = e'" and tr: "tr = EvSeek True # trc @ [EvSync True] @ tr'"
      by (auto simp: prepend_def)
    have "EvWrite s req n err \<notin> set trc"
      using shred_chunks_bad_write [OF c _ Cons.prems(3)] True by blast
    with Cons.prems(2) tr have "EvWrite s req n err \<in> set tr'" by auto
    from Cons.IH [OF rec this Cons.prems(3)] e show ?thesis by simp
  qed
qed


declare unix_chunks.simps [simp del]

lemma unix_chunks_zero: "unix_chunks fuel env p buf j 0 = Some (None, [])"
  by (simp add: unix_chunks.simps)

lemma unix_chunks_0: "0 < rem \<Longrightarrow> unix_chunks 0 env p buf j rem = None"
  by (simp add: unix_chunks.simps)

lemma unix_chunks_Suc:
  "0 < rem \<Longrightarrow> unix_chunks (Suc fuel) env p buf j rem =
     (let toWrite = min rem chunkSize;
          n = fst (s_write_res env p j toWrite); werr = snd (s_write_res env p j toWrite)
      in if werr then Some (Some WriteError, [EvWrite buf toWrite n True])
         else emit [EvWrite buf toWrite n False]
                (unix_chunks fuel env p buf (Suc j) (rem - n)))"
  by (subst unix_chunks.simps) (simp add: Let_def min_def split: prod.splits)

lemma unix_chunks_quiet:
  "unix_chunks fuel env p buf j rem = Some (e, tr) \<Longrightarrow> ev \<in> set tr \<Longrightarrow>
     \<not> is_remove ev \<and> ev \<noteq> EvSync True"
proof (induction fuel arbitrary: j rem tr)
  case 0
  then show ?case by (cases "0 < rem") (auto simp: unix_chunks_0 unix_chunks_zero)
next
  case (Suc fuel)
  show ?case
  proof (cases "0 < rem")
    case False
    with Suc.prems show ?thesis by (simp add: unix_chunks_zero)
  next
    case True
    show ?thesis
    proof (cases "snd (s_write_res env p j (min rem chunkSize))")
      case werr: True
      with Suc.prems show ?thesis by (auto simp: unix_chunks_Suc [OF True] Let_def)
    next
      case False
      with Suc.prems(1) obtain tr' where
        rec: "unix_chunks fuel env p buf (Suc j)
                (rem - fst (s_write_res env p j (min rem chunkSize))) = Some (e, tr')"
        and tr: "tr = EvWrite buf (min rem chunkSize)
                        (fst (s_write_res env p j (min rem chunkSize))) False # tr'"
        by (auto simp: unix_chunks_Suc [OF True] Let_def emit_def)
      from Suc.IH [OF rec] Suc.prems(2) tr show ?thesis by auto
    qed
  qed
qed

lemma unix_chunks_write_error:
  "unix_chunks fuel env p buf j rem = Some (e, tr) \<Longrightarrow> EvWrite s req n True \<in> set tr \<Longrightarrow>
     e = Some WriteError"
proof (induction fuel arbitrary: j rem tr)
  case 0
  then show ?case by (cases "0 < rem") (auto simp: unix_chunks_0 unix_chunks_zero)
next
  case (Suc fuel)
  show ?case
  proof (cases "0 < rem")
    case False
    with Suc.prems show ?thesis by (simp add: unix_chunks_zero)
  next
    case True
    show ?thesis
    proof (cases "snd (s_write_res env p j (min rem chunkSize))")
      case werr: True
      with Suc.prems show ?thesis by (auto simp: unix_chunks_Suc [OF True] Let_def)
    next
      case False
      with Suc.prems(1) obtain tr' where
        rec: "unix_chunks fuel env p buf (Suc j)
                (rem - fst (s_write_res env p j (min rem chunkSize))) = Some (e, tr')"
        and tr: "tr = EvWrite buf (min rem chunkSize)
                        (fst (s_write_res env p j (min rem chunkSize))) False # tr'"
        by (auto simp: unix_chunks_Suc [OF True] Let_def emit_def)
      from Suc.IH [OF rec] Suc.prems(2) tr show ?thesis by auto
    qed
  qed
qed


declare readUrandom_loop.simps [simp del]

lemma readUrandom_loop_done:
  "\<not> filled < len \<Longrightarrow> readUrandom_loop fuel env i filled len = Some (True, filled)"
  by (simp add: readUrandom_loop.simps)

lemma readUrandom_loop_Suc:
  "filled < len \<Longrightarrow> readUrandom_loop (Suc fuel) env i filled len =
     (case s_urandom_read env i (len - filled) of (n, rerr) \<Rightarrow>
        if rerr then Some (False, filled)
        else readUrandom_loop fuel env (Suc i) (filled + n) len)"
  by (simp add: readUrandom_loop.simps)


text \<open>The \<^verbatim>\<open>switch\<close> of the low-level variant logs at most the one read of the randomness
  source.\<close>

lemma unix_fill_buffer_events:
  assumes "unix_fill_buffer fuel env buf p = Some (b, evs)"
  shows "evs = [] \<or> (\<exists>ok. p = PassRandom \<and> evs = [EvRand 0 chunkSize ok])"
  using assms
  by (auto simp: unix_fill_buffer_def split: pass.splits option.splits)

lemma unix_passes_Cons:
  assumes "unix_passes fuel env buf (p # ps) N = Some (e, tr)"
  obtains b evs ec trc where
    "unix_fill_buffer fuel env buf p = Some (b, evs)"
    "unix_chunks fuel env p b 0 N = Some (ec, trc)"
    "ec \<noteq> None \<Longrightarrow> e = ec \<and> tr = evs @ EvSeek (s_seek_ok env p) # trc"
    "ec = None \<Longrightarrow> \<exists>tr'. unix_passes fuel env b ps N = Some (e, tr') \<and>
        tr = (evs @ EvSeek (s_seek_ok env p) # trc @ [EvSync (s_sync_ok env p)]) @ tr'"
proof -
  from assms obtain b evs where f: "unix_fill_buffer fuel env buf p = Some (b, evs)"
    by (auto split: option.splits)
  with assms obtain ec trc where c: "unix_chunks fuel env p b 0 N = Some (ec, trc)"
    by (auto split: option.splits)
  show thesis
  proof (rule that [OF f c])
    assume "ec \<noteq> None"
    with assms f c show "e = ec \<and> tr = evs @ EvSeek (s_seek_ok env p) # trc" by auto
  next
    assume "ec = None"
    with assms f c show "\<exists>tr'. unix_passes fuel env b ps N = Some (e, tr') \<and>
        tr = (evs @ EvSeek (s_seek_ok env p) # trc @ [EvSync (s_sync_ok env p)]) @ tr'"
      by (auto simp: emit_def)
  qed
qed

lemma unix_passes_quiet:
  "unix_passes fuel env buf ps N = Some (e, tr) \<Longrightarrow> ev \<in> set tr \<Longrightarrow> \<not> is_remove ev"
proof (induction ps arbitrary: buf tr e)
  case Nil
  then show ?case by simp
next
  case (Cons p ps)
  from Cons.prems(1) show ?case
  proof (rule unix_passes_Cons)
    fix b evs ec trc
    assume f: "unix_fill_buffer fuel env buf p = Some (b, evs)"
      and c: "unix_chunks fuel env p b 0 N = Some (ec, trc)"
      and err: "ec \<noteq> None \<Longrightarrow> e = ec \<and> tr = evs @ EvSeek (s_seek_ok env p) # trc"
      and ok: "ec = None \<Longrightarrow> \<exists>tr'. unix_passes fuel env b ps N = Some (e, tr') \<and>
        tr = (evs @ EvSeek (s_seek_ok env p) # trc @ [EvSync (s_sync_ok env p)]) @ tr'"
    have fq: "\<And>ev. ev \<in> set evs \<Longrightarrow> \<not> is_remove ev"
      using unix_fill_buffer_events [OF f] by auto
    note cq = unix_chunks_quiet [OF c]
    show ?thesis
    proof (cases ec)
      case (Some x)
      with err Cons.prems(2) fq cq show ?thesis by auto
    next
      case None
      with ok obtain tr' where rec: "unix_passes fuel env b ps N = Some (e, tr')"
        and tr: "tr = (evs @ EvSeek (s_seek_ok env p) # trc @ [EvSync (s_sync_ok env p)]) @ tr'"
        by auto
      from Cons.IH [OF rec] Cons.prems(2) tr fq cq show ?thesis by auto
    qed
  qed
qed

lemma unix_passes_write_error:
  "unix_passes fuel env buf ps N = Some (e, tr) \<Longrightarrow> EvWrite s req n True \<in> set tr \<Longrightarrow>
     e = Some WriteError"
proof (induction ps arbitrary: buf tr e)
  case Nil
  then show ?case by simp
next
  case (Cons p ps)
  from Cons.prems(1) show ?case
  proof (rule unix_passes_Cons)
    fix b evs ec trc
    assume f: "unix_fill_buffer fuel env buf p = Some (b, evs)"
      and c: "unix_chunks fuel env p b 0 N = Some (ec, trc)"
      and err: "ec \<noteq> None \<Longrightarrow> e = ec \<and> tr = evs @ EvSeek (s_seek_ok env p) # trc"
      and ok: "ec = None \<Longrightarrow> \<exists>tr'. unix_passes fuel env b ps N = Some (e, tr') \<and>
        tr = (evs @ EvSeek (s_seek_ok env p) # trc @ [EvSync (s_sync_ok env p)]) @ tr'"
    have fq: "EvWrite s req n True \<notin> set evs"
      using unix_fill_buffer_events [OF f] by auto
    note ce = unix_chunks_write_error [OF c]
    show ?thesis
    proof (cases ec)
      case (Some x)
      with err Cons.prems(2) fq ce show ?thesis by auto
    next
      case None
      with ok obtain tr' where rec: "unix_passes fuel env b ps N = Some (e, tr')"
        and tr: "tr = (evs @ EvSeek (s_seek_ok env p) # trc @ [EvSync (s_sync_ok env p)]) @ tr'"
        by auto
      from None ce have "EvWrite s req n True \<notin> set trc" by auto
      with Cons.prems(2) tr fq have "EvWrite s req n True \<in> set tr'" by auto
      from Cons.IH [OF rec this] show ?thesis .
    qed
  qed
qed



lemma passes_length: "length passes = 3"
  by (simp add: passes_def)

lemma before_remove_append:
  "(\<And>ev. ev \<in> set xs \<Longrightarrow> \<not> is_remove ev) \<Longrightarrow> is_remove r \<Longrightarrow>
     before_remove (xs @ r # ys) = xs"
  by (simp add: before_remove_def takeWhile_append2)

lemma shredFile_removal:
  assumes "s_open_ok env" "s_stat_ok env" "0 < s_size env"
    and run: "shredFile env path = (e, tr)"
    and rem: "\<exists>ev \<in> set tr. is_remove ev"
  shows "bytes_committed (before_remove tr) = 3 * s_size env \<and>
         syncs_completed (before_remove tr) = 3 \<and>
         tr = before_remove tr @ [EvRemove path (s_remove_ok env), EvClose False]"
proof -
  obtain ep trp where p: "shred_passes env passes (s_size env) = (ep, trp)"
    by (cases "shred_passes env passes (s_size env)")
  have q: "\<And>ev. ev \<in> set trp \<Longrightarrow> \<not> is_remove ev"
    using shred_passes_quiet [of _ env passes "s_size env"] p by simp
  have ok: "ep = None \<and> s_close_ok env"
  proof (rule ccontr)
    assume "\<not> (ep = None \<and> s_close_ok env)"
    with run p assms(1-3) have "\<forall>ev \<in> set tr. ev \<in> set trp \<or> \<not> is_remove ev"
      by (auto simp: shredFile_def split: option.splits if_splits)
    with q rem show False by blast
  qed
  with run p assms(1-3) have
    tr: "tr = ([EvOpen path True, EvStat True] @ trp @ [EvClose True])
               @ EvRemove path (s_remove_ok env) # [EvClose False]"
    by (auto simp: shredFile_def split: if_splits)
  have pre: "before_remove tr = [EvOpen path True, EvStat True] @ trp @ [EvClose True]"
    unfolding tr by (rule before_remove_append) (use q in auto)
  from shred_passes_complete [of env passes "s_size env" trp] p ok
  have "bytes_committed trp = 3 * s_size env" "syncs_completed trp = 3"
    by (simp_all add: passes_length)
  with pre tr show ?thesis
    by (simp add: bytes_committed_append syncs_completed_def)
qed

lemma shredFile_bad_write:
  assumes run: "shredFile env path = (e, tr)"
    and w: "EvWrite s req n err \<in> set tr" and bad: "n \<noteq> req \<or> err"
  shows "e \<noteq> None \<and> (\<forall>ev \<in> set tr. \<not> is_remove ev)"
proof -
  obtain ep trp where p: "shred_passes env passes (s_size env) = (ep, trp)"
    by (cases "shred_passes env passes (s_size env)")
  have q: "\<And>ev. ev \<in> set trp \<Longrightarrow> \<not> is_remove ev"
    using shred_passes_quiet [of _ env passes "s_size env"] p by simp
  from run w have pre: "s_open_ok env \<and> s_stat_ok env \<and> s_size env \<noteq> 0"
    by (auto simp: shredFile_def split: if_splits)
  with run w p have "EvWrite s req n err \<in> set trp"
    by (auto simp: shredFile_def split: if_splits option.splits)
  from shred_passes_bad_write [OF p this bad] obtain err' where ep: "ep = Some err'" by auto
  with run p pre q show ?thesis
    by (auto simp: shredFile_def)
qed



lemma shredFile_unix_write_error:
  assumes run: "shredFile_unix fuel env path = Some (e, tr)"
    and w: "EvWrite s req n True \<in> set tr"
  shows "e = Some WriteError \<and> (\<forall>ev \<in> set tr. \<not> is_remove ev)"
proof -
  from run w have pre: "s_open_ok env \<and> s_stat_ok env \<and> s_size env \<noteq> 0"
    by (auto simp: shredFile_unix_def split: if_splits)
  with run obtain ep trp where
    p: "unix_passes fuel env (Constant 0x00) passes (s_size env) = Some (ep, trp)"
    by (auto simp: shredFile_unix_def split: option.splits)
  note q = unix_passes_quiet [OF p]
  from run w p pre have "EvWrite s req n True \<in> set trp"
    by (auto simp: shredFile_unix_def split: option.splits)
  from unix_passes_write_error [OF p this] have "ep = Some WriteError" .
  with run p pre q show ?thesis
    by (auto simp: shredFile_unix_def)
qed

text \<open>The equations that run the low-level variant on a given environment.\<close>

lemmas unix_run_simps =
  shredFile_unix_def passes_def unix_fill_buffer_def readUrandom_def readUrandom_loop_Suc
  readUrandom_loop_done unix_chunks_Suc unix_chunks_zero chunkSize_def emit_def senv_ok_def




lemma shredFile_3:
  "shredFile (senv_ok 3) ''f'' =
     (None,
      [EvOpen ''f'' True, EvStat True,
       EvSeek True, EvWrite (Constant 0xFF) 3 3 False, EvSync True,
       EvSeek True, EvWrite (Constant 0x00) 3 3 False, EvSync True,
       EvSeek True, EvRand 0 3 True, EvWrite (Fresh 0) 3 3 False, EvSync True,
       EvClose True, EvRemove ''f'' True, EvClose False])"
  by (simp add: shredFile_def passes_def senv_ok_def shred_chunks_step shred_chunks_zero
        chunkSize_def prepend_def fill_events_def fill_source_def)

lemma shredFile_locked:
  "shredFile (senv_locked 5) ''f'' = (Some OpenError, [EvOpen ''f'' False, EvRemove ''f'' True])"
  by (simp add: shredFile_def senv_locked_def senv_ok_def)

lemma shredFile_short:
  "shredFile (senv_short 3) ''f'' =
     (Some ShortWrite,
      [EvOpen ''f'' True, EvStat True, EvSeek True, EvWrite (Constant 0xFF) 3 1 False,
       EvClose True])"
  by (simp add: shredFile_def passes_def senv_short_def senv_ok_def shred_chunks_step
        shred_chunks_zero chunkSize_def prepend_def fill_events_def fill_source_def)

lemma shredFile_unix_short:
  "shredFile_unix (Suc (Suc (Suc 0))) (senv_short 3) ''f'' =
     Some (None,
      [EvOpen ''f'' True, EvStat True, EvSeek True,
       EvWrite (Constant 0xFF) 3 1 False, EvWrite (Constant 0xFF) 2 1 False,
       EvWrite (Constant 0xFF) 1 1 False, EvSync True, EvSeek True,
       EvWrite (Constant 0x00) 3 1 False, EvWrite (Constant 0x00) 2 1 False,
       EvWrite (Constant 0x00) 1 1 False, EvSync True, EvRand 0 1048576 True,
       EvSeek True, EvWrite (Fresh 0) 3 1 False, EvWrite (Fresh 0) 2 1 False,
       EvWrite (Fresh 0) 1 1 False, EvSync True, EvClose True,
       EvRemove ''f'' True, EvClose False])"
  by (simp add: unix_run_simps senv_short_def)

lemma shredFile_unix_write_err:
  "shredFile_unix (Suc 0) (senv_write_error 3) ''f'' =
     Some (Some WriteError,
      [EvOpen ''f'' True, EvStat True, EvSeek True, EvWrite (Constant 0xFF) 3 0 True,
       EvClose True])"
  by (simp add: unix_run_simps senv_write_error_def)


lemma shredFile_unix_no_entropy:
  "shredFile_unix (Suc 0) (senv_no_entropy 3) ''f'' =
     Some (None,
      [EvOpen ''f'' True, EvStat True, EvSeek True, EvWrite (Constant 0xFF) 3 3 False,
       EvSync True, EvSeek True, EvWrite (Constant 0x00) 3 3 False, EvSync True,
       EvRand 0 1048576 False, EvSeek True, EvWrite (Constant 0x00) 3 3 False, EvSync True,
       EvClose True, EvRemove ''f'' True, EvClose False])"
  by (simp add: unix_run_simps senv_no_entropy_def)

lemma shredFile_no_stat:
  "shredFile (senv_no_stat 5) ''f'' =
     (Some StatError,
      [EvOpen ''f'' True, EvStat False, EvClose True, EvRemove ''f'' True, EvClose False])"
  by (simp add: shredFile_def senv_no_stat_def senv_ok_def)

lemma shredFile_unix_3:
  "shredFile_unix (Suc 0) (senv_ok 3) ''f'' =
     Some (None,
      [EvOpen ''f'' True, EvStat True,
       EvSeek True, EvWrite (Constant 0xFF) 3 3 False, EvSync True,
       EvSeek True, EvWrite (Constant 0x00) 3 3 False, EvSync True,
       EvRand 0 1048576 True, EvSeek True, EvWrite (Fresh 0) 3 3 False, EvSync True,
       EvClose True, EvRemove ''f'' True, EvClose False])"
  by (simp add: unix_run_simps)


lemma shredFile_success_removes:
  assumes "s_open_ok env" "s_stat_ok env" "0 < s_size env" "shredFile env path = (None, tr)"
  shows "EvRemove path True \<in> set tr"
  using assms
  by (auto simp: shredFile_def split: if_splits prod.splits option.splits)

text \<open>
  Claim C1, as the code has it. A file of \<open>N > 0\<close> bytes that \<^verbatim>\<open>shredFile\<close> has opened
  and whose size it has read is removed only at the end of the run: in every run that
  contains a removal, the calls before the removal have written \<open>3 * N\<close> bytes and
  completed three syncs, and the removal is the last call but the deferred close; a
  run that returns no error contains the removal. Where the open fails, or the \<^verbatim>\<open>Stat\<close>
  after it, \<^verbatim>\<open>shredFile\<close> makes no write at all and still calls \<^verbatim>\<open>os.Remove\<close>.
\<close>

theorem shredFile_removes_only_after_three_passes:
  assumes run: "shredFile env path = (e, tr)"
  shows "(s_open_ok env \<and> s_stat_ok env \<and> 0 < s_size env \<and> (\<exists>ev \<in> set tr. is_remove ev) \<longrightarrow>
            bytes_committed (before_remove tr) = 3 * s_size env \<and>
            syncs_completed (before_remove tr) = 3 \<and>
            tr = before_remove tr @ [EvRemove path (s_remove_ok env), EvClose False]) \<and>
         (s_open_ok env \<and> s_stat_ok env \<and> 0 < s_size env \<and> e = None \<longrightarrow>
            EvRemove path True \<in> set tr) \<and>
         (\<not> s_open_ok env \<longrightarrow>
            e = Some OpenError \<and> tr = [EvOpen path False, EvRemove path (s_remove_ok env)]) \<and>
         (s_open_ok env \<and> \<not> s_stat_ok env \<longrightarrow>
            e = Some StatError \<and>
            tr = [EvOpen path True, EvStat False, EvClose (s_close_ok env),
                  EvRemove path (s_remove_ok env), EvClose False])"
proof (intro conjI impI)
  assume "s_open_ok env \<and> s_stat_ok env \<and> 0 < s_size env \<and> (\<exists>ev \<in> set tr. is_remove ev)"
  then have h: "s_open_ok env" "s_stat_ok env" "0 < s_size env" "\<exists>ev \<in> set tr. is_remove ev"
    by simp_all
  from shredFile_removal [OF h(1-3) run h(4)]
  show "bytes_committed (before_remove tr) = 3 * s_size env"
    "syncs_completed (before_remove tr) = 3"
    "tr = before_remove tr @ [EvRemove path (s_remove_ok env), EvClose False]"
    by simp_all
next
  assume "s_open_ok env \<and> s_stat_ok env \<and> 0 < s_size env \<and> e = None"
  with run show "EvRemove path True \<in> set tr"
    using shredFile_success_removes by blast
next
  assume "\<not> s_open_ok env"
  with run show "e = Some OpenError" "tr = [EvOpen path False, EvRemove path (s_remove_ok env)]"
    by (simp_all add: shredFile_def)
next
  assume "s_open_ok env \<and> \<not> s_stat_ok env"
  with run show "e = Some StatError"
    "tr = [EvOpen path True, EvStat False, EvClose (s_close_ok env),
           EvRemove path (s_remove_ok env), EvClose False]"
    by (simp_all add: shredFile_def)
qed

theorem shredFile_removes_only_after_three_passes_witness:
  "s_open_ok (senv_ok 3) \<and> s_stat_ok (senv_ok 3) \<and> 0 < s_size (senv_ok 3) \<and>
   (\<exists>ev \<in> set (snd (shredFile (senv_ok 3) ''f'')). is_remove ev) \<and>
   fst (shredFile (senv_ok 3) ''f'') = None \<and>
   bytes_committed (before_remove (snd (shredFile (senv_ok 3) ''f''))) = 3 * 3 \<and>
   syncs_completed (before_remove (snd (shredFile (senv_ok 3) ''f''))) = 3 \<and>
   EvRemove ''f'' True \<in> set (snd (shredFile (senv_ok 3) ''f'')) \<and>
   \<not> s_open_ok (senv_locked 5) \<and>
   shredFile (senv_locked 5) ''f'' = (Some OpenError, [EvOpen ''f'' False, EvRemove ''f'' True]) \<and>
   s_open_ok (senv_no_stat 5) \<and> \<not> s_stat_ok (senv_no_stat 5) \<and>
   shredFile (senv_no_stat 5) ''f'' =
     (Some StatError,
      [EvOpen ''f'' True, EvStat False, EvClose True, EvRemove ''f'' True, EvClose False])"
  using shredFile_removes_only_after_three_passes [OF shredFile_3]
    shredFile_removes_only_after_three_passes [OF shredFile_locked]
    shredFile_removes_only_after_three_passes [OF shredFile_no_stat]
  by (simp add: shredFile_3 shredFile_locked shredFile_no_stat)
     (simp add: senv_ok_def senv_locked_def senv_no_stat_def)

text \<open>
  Claim C1 as stated fails: a file of 5 bytes that cannot be opened for writing is
  removed with no byte written and no sync made.
\<close>

theorem shredFile_removes_unopened_file:
  "0 < s_size (senv_locked 5) \<and>
   shredFile (senv_locked 5) ''f'' = (Some OpenError, [EvOpen ''f'' False, EvRemove ''f'' True]) \<and>
   bytes_committed (before_remove [EvOpen ''f'' False, EvRemove ''f'' True]) = 0 \<and>
   syncs_completed (before_remove [EvOpen ''f'' False, EvRemove ''f'' True]) = 0"
  by (simp add: shredFile_locked before_remove_def syncs_completed_def)
     (simp add: senv_locked_def senv_ok_def)



















lemma shredFile_no_sync:
  "shredFile (senv_no_sync 3) ''f'' =
     (Some SyncError,
      [EvOpen ''f'' True, EvStat True, EvSeek True, EvWrite (Constant 0xFF) 3 3 False,
       EvSync False, EvClose True])"
  by (simp add: shredFile_def passes_def shred_chunks_step shred_chunks_zero prepend_def
        fill_events_def fill_source_def chunkSize_def senv_no_sync_def senv_ok_def Let_def)




text \<open>
  Claim C6, as the code has it. In \<^verbatim>\<open>shredFile\<close>, a run with a write that reports an
  error or a count other than the requested one returns an error and contains no
  removal. In the low-level variant this holds for a write that reports an error.
\<close>

theorem shredFile_bad_write_is_fatal:
  "(shredFile env path = (e, tr) \<and> EvWrite s req n err \<in> set tr \<and> (n \<noteq> req \<or> err) \<longrightarrow>
      e \<noteq> None \<and> (\<forall>ev \<in> set tr. \<not> is_remove ev)) \<and>
   (shredFile_unix fuel env' path' = Some (e', tr') \<and> EvWrite s' req' n' True \<in> set tr' \<longrightarrow>
      e' = Some WriteError \<and> (\<forall>ev \<in> set tr'. \<not> is_remove ev))"
  using shredFile_bad_write shredFile_unix_write_error by blast

theorem shredFile_bad_write_is_fatal_witness:
  "shredFile (senv_short 3) ''f'' =
     (Some ShortWrite,
      [EvOpen ''f'' True, EvStat True, EvSeek True, EvWrite (Constant 0xFF) 3 1 False,
       EvClose True]) \<and>
   EvWrite (Constant 0xFF) 3 1 False \<in>
     set [EvOpen ''f'' True, EvStat True, EvSeek True, EvWrite (Constant 0xFF) 3 1 False,
          EvClose True] \<and>
   (1::nat) \<noteq> 3 \<and>
   Some ShortWrite \<noteq> None \<and>
   filter is_remove
     [EvOpen ''f'' True, EvStat True, EvSeek True, EvWrite (Constant 0xFF) 3 1 False,
      EvClose True] = [] \<and>
   shredFile_unix (Suc 0) (senv_write_error 3) ''f'' =
     Some (Some WriteError,
      [EvOpen ''f'' True, EvStat True, EvSeek True, EvWrite (Constant 0xFF) 3 0 True,
       EvClose True]) \<and>
   EvWrite (Constant 0xFF) 3 0 True \<in>
     set [EvOpen ''f'' True, EvStat True, EvSeek True, EvWrite (Constant 0xFF) 3 0 True,
          EvClose True]"
  using shredFile_bad_write_is_fatal
    [of "senv_short 3" "''f''" "Some ShortWrite"
        "[EvOpen ''f'' True, EvStat True, EvSeek True, EvWrite (Constant 0xFF) 3 1 False,
          EvClose True]"
        "Constant 0xFF" 3 1 False
        "Suc 0" "senv_write_error 3" "''f''" "Some WriteError"
        "[EvOpen ''f'' True, EvStat True, EvSeek True, EvWrite (Constant 0xFF) 3 0 True,
          EvClose True]"
        "Constant 0xFF" 3 0]
  by (simp add: shredFile_short shredFile_unix_write_err)

text \<open>
  Claim C6 as stated fails on the low-level variant: where every write puts one byte
  of the three into the file and reports no error, the variant writes the rest in
  further writes, returns no error and removes the file.
\<close>

theorem shredFile_unix_continues_after_short_write:
  "shredFile_unix (Suc (Suc (Suc 0))) (senv_short 3) ''f'' =
     Some (None,
      [EvOpen ''f'' True, EvStat True, EvSeek True,
       EvWrite (Constant 0xFF) 3 1 False, EvWrite (Constant 0xFF) 2 1 False,
       EvWrite (Constant 0xFF) 1 1 False, EvSync True, EvSeek True,
       EvWrite (Constant 0x00) 3 1 False, EvWrite (Constant 0x00) 2 1 False,
       EvWrite (Constant 0x00) 1 1 False, EvSync True, EvRand 0 1048576 True,
       EvSeek True, EvWrite (Fresh 0) 3 1 False, EvWrite (Fresh 0) 2 1 False,
       EvWrite (Fresh 0) 1 1 False, EvSync True, EvClose True,
       EvRemove ''f'' True, EvClose False])"
  by (rule shredFile_unix_short)

text \<open>In \<^verbatim>\<open>shredFile\<close> a failed read of the randomness source ends the run with that error,
  and the file stays.\<close>

lemma shred_chunks_entropy:
  "shred_chunks env p j rem = (e, tr) \<Longrightarrow> EvRand k n False \<in> set tr \<Longrightarrow>
     e = Some EntropyError"
proof (induction rem arbitrary: j tr e rule: less_induct)
  case (less rem)
  show ?case
  proof (cases "0 < rem")
    case False
    with less.prems show ?thesis by (simp add: shred_chunks_zero)
  next
    case True
    have dec: "rem - min rem chunkSize < rem" using True min_chunk_pos [OF True] by simp
    obtain e' tr' where rec: "shred_chunks env p (Suc j) (rem - min rem chunkSize) = (e', tr')"
      by (cases "shred_chunks env p (Suc j) (rem - min rem chunkSize)")
    from less.prems rec less.IH [OF dec rec] show ?thesis
      by (auto simp: shred_chunks_step [OF True] Let_def prepend_def fill_events_def
          split: if_splits pass.splits)
  qed
qed

lemma shred_passes_entropy:
  "shred_passes env ps N = (e, tr) \<Longrightarrow> EvRand k n False \<in> set tr \<Longrightarrow>
     e = Some EntropyError"
proof (induction ps arbitrary: tr e)
  case Nil
  then show ?case by simp
next
  case (Cons p ps)
  obtain ec trc where c: "shred_chunks env p 0 N = (ec, trc)" by (cases "shred_chunks env p 0 N")
  obtain e' tr' where rec: "shred_passes env ps N = (e', tr')" by (cases "shred_passes env ps N")
  show ?case
  proof (cases "s_seek_ok env p \<and> ec = None \<and> s_sync_ok env p")
    case False
    with Cons.prems c shred_chunks_entropy [OF c] show ?thesis
      by (auto simp: prepend_def split: if_splits option.splits)
  next
    case True
    with Cons.prems(1) c rec have e: "e = e'" and tr: "tr = EvSeek True # trc @ [EvSync True] @ tr'"
      by (auto simp: prepend_def)
    have "EvRand k n False \<notin> set trc"
      using shred_chunks_entropy [OF c] True by auto
    with Cons.prems(2) tr have "EvRand k n False \<in> set tr'" by auto
    from Cons.IH [OF rec this] e show ?thesis by simp
  qed
qed

lemma shredFile_entropy:
  assumes run: "shredFile env path = (e, tr)" and w: "EvRand k n False \<in> set tr"
  shows "e = Some EntropyError \<and> (\<forall>ev \<in> set tr. \<not> is_remove ev)"
proof -
  obtain ep trp where p: "shred_passes env passes (s_size env) = (ep, trp)"
    by (cases "shred_passes env passes (s_size env)")
  have q: "\<And>ev. ev \<in> set trp \<Longrightarrow> \<not> is_remove ev"
    using shred_passes_quiet [of _ env passes "s_size env"] p by simp
  from run w have pre: "s_open_ok env \<and> s_stat_ok env \<and> s_size env \<noteq> 0"
    by (auto simp: shredFile_def split: if_splits)
  with run w p have "EvRand k n False \<in> set trp"
    by (auto simp: shredFile_def split: if_splits option.splits)
  from shred_passes_entropy [OF p this] have "ep = Some EntropyError" .
  with run p pre q show ?thesis
    by (auto simp: shredFile_def)
qed

text \<open>
  A read of the randomness source that fails after two bytes leaves those two bytes at
  the head of the buffer of the second pass, and the third pass writes that buffer.
\<close>

lemma shredFile_unix_entropy_cut:
  "shredFile_unix (Suc (Suc 0)) (senv_entropy_cut 3) ''f'' =
     Some (None,
      [EvOpen ''f'' True, EvStat True, EvSeek True, EvWrite (Constant 0xFF) 3 3 False,
       EvSync True, EvSeek True, EvWrite (Constant 0x00) 3 3 False, EvSync True,
       EvRand 0 1048576 False, EvSeek True,
       EvWrite (Partial 0 2 (Constant 0x00)) 3 3 False, EvSync True,
       EvClose True, EvRemove ''f'' True, EvClose False])"
  by (simp add: unix_run_simps senv_entropy_cut_def)

text \<open>
  Claim C8. In the low-level variant the result of \<^verbatim>\<open>readUrandom\<close> is dropped: where
  the randomness source cannot be read, the third pass writes the buffer of the second
  pass (0x00) once more, and the variant returns no error and removes the file.
\<close>

theorem shredFile_unix_writes_stale_buffer:
  "shredFile_unix (Suc 0) (senv_no_entropy 3) ''f'' =
     Some (None,
      [EvOpen ''f'' True, EvStat True, EvSeek True, EvWrite (Constant 0xFF) 3 3 False,
       EvSync True, EvSeek True, EvWrite (Constant 0x00) 3 3 False, EvSync True,
       EvRand 0 1048576 False, EvSeek True, EvWrite (Constant 0x00) 3 3 False, EvSync True,
       EvClose True, EvRemove ''f'' True, EvClose False])"
  by (rule shredFile_unix_no_entropy)

section \<open>Properties of the fill loop\<close>

declare decimal.simps [simp del]

lemma digit_char_mem: "d < 10 \<Longrightarrow> ''0123456789'' ! d \<in> set ''0123456789''"
  by (rule nth_mem) simp

lemma decimal_nonempty: "decimal n \<noteq> []"
  by (subst decimal.simps) simp

lemma decimal_hd: "hd (decimal n) \<in> set ''0123456789''"
proof (induction n rule: decimal.induct)
  case (1 n)
  show ?case
  proof (cases "n < 10")
    case True
    then show ?thesis
      by (subst decimal.simps) (simp add: digit_char_mem del: set_simps)
  next
    case False
    with 1 show ?thesis
      by (subst decimal.simps) (simp add: decimal_nonempty del: set_simps)
  qed
qed

lemma pad6_hd: "pad6 n \<noteq> [] \<and> hd (pad6 n) \<in> set ''0123456789''"
proof (cases "6 - length (decimal n)")
  case 0
  then show ?thesis using decimal_hd [of n] decimal_nonempty [of n]
    by (simp add: pad6_def del: set_simps)
next
  case (Suc k)
  then show ?thesis by (simp add: pad6_def)
qed

lemma regularFilename_eq: "regularFilename k = ''chaff/chaff_'' @ pad6 k @ ''.dat''"
  by (simp add: regularFilename_def filepath_Join_def outputDir_def filePrefix_def)

lemma finalFilename_eq: "finalFilename = ''chaff/chaff_FINAL.dat''"
  by (simp add: finalFilename_def filepath_Join_def outputDir_def filePrefix_def)

lemma final_not_regular: "finalFilename \<noteq> regularFilename k"
proof
  assume "finalFilename = regularFilename k"
  then have "pad6 k @ ''.dat'' = ''FINAL.dat''"
    by (simp add: regularFilename_eq finalFilename_eq)
  then have "hd (pad6 k @ ''.dat'') = CHR ''F''" by simp
  then have "hd (pad6 k) = CHR ''F''" using pad6_hd [of k] by simp
  with pad6_hd [of k] show False by simp
qed

declare fill_loop.simps [simp del]

lemma fill_loop_done: "availableSpace st = 0 \<Longrightarrow> fill_loop fuel gfuel envs st = Some st"
  by (simp add: fill_loop.simps)

lemma fill_loop_0: "availableSpace st \<noteq> 0 \<Longrightarrow> fill_loop 0 gfuel envs st = None"
  by (simp add: fill_loop.simps word_greater_zero_iff)

lemma fill_loop_Suc:
  "availableSpace st \<noteq> 0 \<Longrightarrow> fill_loop (Suc fuel) gfuel envs st =
     (case fill_body gfuel envs st of
        None \<Rightarrow> None
      | Some (Break st') \<Rightarrow> Some st'
      | Some (Continue st') \<Rightarrow> fill_loop fuel gfuel envs st')"
  by (simp add: fill_loop.simps word_greater_zero_iff)

lemma fill_body_inv:
  "fill_inv st \<Longrightarrow> fill_body gfuel envs st = Some fl \<Longrightarrow> fill_inv (state_of fl)"
  by (auto simp: fill_body_def fill_inv_def recorded_def Let_def
      split: if_splits option.splits prod.splits)

lemma fill_loop_inv:
  "fill_inv st \<Longrightarrow> fill_loop fuel gfuel envs st = Some st' \<Longrightarrow> fill_inv st'"
proof (induction fuel arbitrary: st)
  case 0
  then show ?case
    by (cases "availableSpace st = 0") (auto simp: fill_loop_done fill_loop_0)
next
  case (Suc fuel)
  show ?case
  proof (cases "availableSpace st = 0")
    case True
    with Suc.prems show ?thesis by (simp add: fill_loop_done)
  next
    case False
    from Suc.prems(2) False obtain fl where b: "fill_body gfuel envs st = Some fl"
      by (auto simp: fill_loop_Suc split: option.splits)
    note i = fill_body_inv [OF Suc.prems(1) b]
    show ?thesis
    proof (cases fl)
      case (Continue s)
      with Suc.prems(2) False b have "fill_loop fuel gfuel envs s = Some st'"
        by (simp add: fill_loop_Suc)
      with Suc.IH i Continue show ?thesis by simp
    next
      case (Break s)
      with Suc.prems(2) False b i show ?thesis by (simp add: fill_loop_Suc)
    qed
  qed
qed

lemma fill_inv_created:
  "fill_inv st \<Longrightarrow> p \<in> set (createdFiles st) \<Longrightarrow>
     \<exists>b. (p, b, None) \<in> set (attempts st) \<and> 0 < b"
  by (auto simp: fill_inv_def recorded_def)

lemma shredFiles_paths: "map fst (shredFiles senvs files) = files"
  by (induction files) simp_all

lemma fill_inv_init: "fill_inv (fill_init A)"
  by (simp add: fill_inv_def fill_init_def recorded_def)

lemma write_chunks_success_remaining:
  "write_chunks fuel env sz A i bw = Some ((r, b, None), tr) \<Longrightarrow> r = A - sz"
proof (induction fuel arbitrary: i bw tr)
  case 0
  then show ?case
    by (cases "bw < sz") (auto simp: write_chunks_0 write_chunks_done split: if_splits)
next
  case (Suc fuel)
  show ?case
  proof (cases "bw < sz")
    case False
    with Suc.prems show ?thesis by (auto simp: write_chunks_done split: if_splits)
  next
    case True
    with Suc.prems obtain c tr' where
      "write_chunks fuel env sz A (Suc i) (bw + of_nat c) = Some ((r, b, None), tr')"
      by (auto simp: write_chunks_Suc emit_def Let_def split: if_splits prod.splits)
    then show ?thesis by (rule Suc.IH)
  qed
qed

lemma gen_success_remaining:
  assumes "generateChaffFile fuel env fn sizeMB A = Some ((r, b, None), tr)"
  shows "r = A - min (sizeBytes_of sizeMB) A"
proof (cases "min (sizeBytes_of sizeMB) A = 0")
  case True
  with assms show ?thesis by (simp add: generateChaffFile_unfold)
next
  case False
  with assms obtain tr' where
    "write_chunks fuel env (min (sizeBytes_of sizeMB) A) A 0 0 = Some ((r, b, None), tr')"
    by (auto simp: generateChaffFile_unfold split: if_splits)
  then show ?thesis by (rule write_chunks_success_remaining)
qed

lemma gen_ok_succeeds:
  assumes ok: "gen_all_ok env" and fuel: "unat (sizeBytes_of sizeMB) \<le> fuel * chunkSize"
  shows "\<exists>tr. generateChaffFile fuel env fn sizeMB A =
           Some ((A - min (sizeBytes_of sizeMB) A, min (sizeBytes_of sizeMB) A, None), tr)"
proof -
  define sz where "sz = min (sizeBytes_of sizeMB) A"
  have "unat sz \<le> unat (sizeBytes_of sizeMB)"
    by (simp add: sz_def word_le_nat_alt [symmetric])
  with fuel have f: "unat (sz - 0) \<le> fuel * chunkSize" by simp
  from write_chunks_all_ok [OF ok _ f, of A 0] obtain tr' where
    "write_chunks fuel env sz A 0 0 = Some ((A - sz, sz, None), tr')" by auto
  with ok show ?thesis
    by (auto simp: generateChaffFile_unfold sz_def [symmetric] gen_all_ok_def)
qed

lemma fileSize_bytes: "sizeBytes_of fileSizeMB = 104857600"
  by (simp add: sizeBytes_of_def fileSizeMB_def)

lemma one_MB_bytes: "sizeBytes_of 1 = 1048576"
  by (simp add: sizeBytes_of_def)

lemma genv_ok_never_fails: "gen_never_fails 100 (\<lambda>k. genv_ok)"
proof -
  have a: "unat (sizeBytes_of fileSizeMB) \<le> 100 * chunkSize"
    by (simp add: fileSize_bytes chunkSize_def)
  have b: "unat (sizeBytes_of 1) \<le> 100 * chunkSize"
    by (simp add: one_MB_bytes chunkSize_def)
  show ?thesis
    unfolding gen_never_fails_def
    using gen_ok_succeeds [OF genv_ok_all_ok a] gen_ok_succeeds [OF genv_ok_all_ok b]
    by blast
qed

text \<open>A regular iteration under the threshold test.\<close>

lemma fill_body_regular:
  assumes big: "\<not> availableSpace st < 10485760"
    and gen: "generateChaffFile gfuel (envs (fileCount st)) (regularFilename (fileCount st))
                fileSizeMB (availableSpace st) = Some ((r, b, None), tr)"
  shows "fill_body gfuel envs st =
           Some (Continue (st\<lparr>
             createdFiles := (if b > 0 then createdFiles st @ [regularFilename (fileCount st)]
                              else createdFiles st),
             availableSpace := availableSpace st - min 104857600 (availableSpace st),
             fileCount := fileCount st + 1,
             attempts := attempts st @ [(regularFilename (fileCount st), b, None)]\<rparr>))"
  using big gen gen_success_remaining [OF gen]
  by (simp add: fill_body_def Let_def fileSize_bytes)

lemma regular_decrease:
  fixes A :: u64
  assumes "\<not> A < 10485760"
  shows "unat (A - min 104857600 A) + 10485760 \<le> unat A"
proof -
  have le: "min 104857600 A \<le> A" by simp
  have d: "unat (A - min 104857600 A) = unat A - unat (min 104857600 A)"
    using le by (simp add: unat_sub)
  have m: "10485760 \<le> unat (min 104857600 A)"
    using assms by (auto simp: min_def word_less_nat_alt word_le_nat_alt not_less)
  have "unat (min 104857600 A) \<le> unat A" using le by (simp add: word_le_nat_alt)
  with d m show ?thesis by simp
qed

lemma fill_loop_terminates_aux:
  assumes nf: "gen_never_fails gfuel envs"
  shows "unat (availableSpace st) div 10485760 < fuel \<Longrightarrow>
         \<exists>st'. fill_loop fuel gfuel envs st = Some st' \<and> availableSpace st' < 10485760"
proof (induction fuel arbitrary: st)
  case 0
  then show ?case by simp
next
  case (Suc fuel)
  show ?case
  proof (cases "availableSpace st = 0")
    case True
    then show ?thesis by (simp add: fill_loop_done)
  next
    case nz: False
    show ?thesis
    proof (cases "availableSpace st < 10485760")
      case True
      from nf obtain r b tr where
        g: "generateChaffFile gfuel (envs (fileCount st)) finalFilename 1 (availableSpace st)
              = Some ((r, b, None), tr)"
        unfolding gen_never_fails_def by blast
      have le: "min 1048576 (availableSpace st) \<le> availableSpace st" by simp
      have "r = availableSpace st - min 1048576 (availableSpace st)"
        using gen_success_remaining [OF g] by (simp add: one_MB_bytes)
      then have "unat r \<le> unat (availableSpace st)"
        using le by (simp add: unat_sub)
      with True have "r < 10485760" by (simp add: word_less_nat_alt)
      with g True nz show ?thesis
        by (simp add: fill_loop_Suc fill_body_def Let_def)
    next
      case False
      from nf obtain r b tr where
        g: "generateChaffFile gfuel (envs (fileCount st)) (regularFilename (fileCount st))
              fileSizeMB (availableSpace st) = Some ((r, b, None), tr)"
        unfolding gen_never_fails_def by blast
      define st' where "st' = st\<lparr>
             createdFiles := (if b > 0 then createdFiles st @ [regularFilename (fileCount st)]
                              else createdFiles st),
             availableSpace := availableSpace st - min 104857600 (availableSpace st),
             fileCount := fileCount st + 1,
             attempts := attempts st @ [(regularFilename (fileCount st), b, None)]\<rparr>"
      have body: "fill_body gfuel envs st = Some (Continue st')"
        unfolding st'_def by (rule fill_body_regular [where envs = envs, OF False g])
      have "unat (availableSpace st') + 10485760 \<le> unat (availableSpace st)"
        using regular_decrease [OF False] by (simp add: st'_def)
      then have "(unat (availableSpace st') + 10485760) div 10485760
                   \<le> unat (availableSpace st) div 10485760"
        by (rule div_le_mono)
      then have "unat (availableSpace st') div 10485760 < unat (availableSpace st) div 10485760"
        by simp
      with Suc.prems have "unat (availableSpace st') div 10485760 < fuel" by simp
      from Suc.IH [OF this] body nz show ?thesis by (simp add: fill_loop_Suc)
    qed
  qed
qed

lemma decimal_0: "decimal 0 = ''0''"
  by (subst decimal.simps) simp

lemma regularFilename_0: "regularFilename 0 = ''chaff/chaff_000000.dat''"
  by (simp add: regularFilename_eq pad6_def decimal_0 eval_nat_numeral)

lemma gen_final_8MB:
  "generateChaffFile (Suc 0) genv_ok finalFilename 1 8388608 =
     Some ((7340032, 1048576, None),
           [EvCreate finalFilename True, EvRand 0 1048576 True,
            EvWrite (Fresh 0) 1048576 1048576 False, EvSync True, EvClose True])"
  by (simp add: generateChaffFile_unfold sizeBytes_of_def write_chunks_Suc write_chunks_done
        genv_ok_def emit_def chunkSize_def)

lemma fill_loop_8MB:
  "fill_loop (Suc 0) (Suc 0) (\<lambda>k. genv_ok) (fill_init 8388608) =
     Some \<lparr>fileCount = 0, availableSpace = 7340032,
           createdFiles = [''chaff/chaff_FINAL.dat''],
           attempts = [(''chaff/chaff_FINAL.dat'', 1048576, None)]\<rparr>"
  by (simp add: fill_loop_Suc fill_body_def fill_init_def gen_final_8MB)
     (simp add: finalFilename_eq)

lemma fill_body_10MB:
  "fill_body 10 (\<lambda>k. genv_ok) (fill_init 10485760) =
     Some (Continue \<lparr>fileCount = 1, availableSpace = 0,
           createdFiles = [''chaff/chaff_000000.dat''],
           attempts = [(''chaff/chaff_000000.dat'', 10485760, None)]\<rparr>)"
proof -
  have f: "unat (min (sizeBytes_of fileSizeMB) (10485760::u64)) \<le> 10 * chunkSize"
    by (simp add: fileSize_bytes chunkSize_def)
  then have "unat (min (sizeBytes_of fileSizeMB) (10485760::u64) - 0) \<le> 10 * chunkSize" by simp
  from write_chunks_all_ok [OF genv_ok_all_ok _ this, of 10485760 0]
  obtain tr where
    "write_chunks 10 genv_ok (min (sizeBytes_of fileSizeMB) 10485760) 10485760 0 0 =
       Some ((10485760 - min (sizeBytes_of fileSizeMB) 10485760,
              min (sizeBytes_of fileSizeMB) 10485760, None), tr)"
    by auto
  then have "generateChaffFile 10 genv_ok (regularFilename 0) fileSizeMB 10485760 =
       Some ((0, 10485760, None), EvCreate (regularFilename 0) True # tr @ [EvClose True])"
    by (simp add: generateChaffFile_unfold fileSize_bytes genv_ok_def)
  then show ?thesis
    by (simp add: fill_body_def fill_init_def regularFilename_0 Let_def)
qed

lemma fill_loop_10MB:
  "fill_loop (Suc 0) 10 (\<lambda>k. genv_ok) (fill_init 10485760) =
     Some \<lparr>fileCount = 1, availableSpace = 0,
           createdFiles = [''chaff/chaff_000000.dat''],
           attempts = [(''chaff/chaff_000000.dat'', 10485760, None)]\<rparr>"
proof -
  have nz: "availableSpace (fill_init 10485760) \<noteq> 0" by (simp add: fill_init_def)
  show ?thesis
    by (simp add: fill_loop_Suc [OF nz] fill_body_10MB fill_loop_done)
qed

text \<open>
  Claim C4, as the code has it. When the tracked available space is above 0 and
  strictly below 10 MiB, the loop makes exactly one more call of \<^verbatim>\<open>generateChaffFile\<close>,
  for the name \<^verbatim>\<open>chaff_FINAL.dat\<close> and a size of 1 MiB, and ends whatever that call
  returns; the name is none of the numbered names; the file is recorded if the call
  returned no error and wrote bytes, and such a call has written the minimum of 1 MiB
  and the available space. At 10 MiB or more an iteration attempts the numbered name
  of the current count and the loop goes on.
\<close>

theorem final_chunk_below_threshold:
  assumes nz: "availableSpace st \<noteq> 0" and low: "availableSpace st < 10 * 1024 * 1024"
    and sane: "write_sane (envs (fileCount st))"
    and gen: "generateChaffFile gfuel (envs (fileCount st)) finalFilename 1 (availableSpace st)
                = Some ((r, b, err), tr)"
  shows "fill_loop (Suc fuel) gfuel envs st =
           Some (st\<lparr>
             createdFiles := (if err = None \<and> 0 < b then createdFiles st @ [finalFilename]
                              else createdFiles st),
             availableSpace := r,
             attempts := attempts st @ [(finalFilename, b, err)]\<rparr>) \<and>
         (\<forall>k. finalFilename \<noteq> regularFilename k) \<and>
         (err = None \<longrightarrow> b = min (1024 * 1024) (availableSpace st) \<and> r = availableSpace st - b \<and> 0 < b) \<and>
         (\<not> availableSpace st2 < 10 * 1024 * 1024 \<and> fill_body gfuel envs st2 = Some fl \<longrightarrow>
            (\<exists>s. fl = Continue s) \<and>
            (\<exists>b2 e2. attempts (state_of fl) =
                       attempts st2 @ [(regularFilename (fileCount st2), b2, e2)]))"
proof (intro conjI impI allI)
  from low have low': "availableSpace st < 10485760" by simp
  show "fill_loop (Suc fuel) gfuel envs st =
           Some (st\<lparr>
             createdFiles := (if err = None \<and> 0 < b then createdFiles st @ [finalFilename]
                              else createdFiles st),
             availableSpace := r,
             attempts := attempts st @ [(finalFilename, b, err)]\<rparr>)"
    using low' gen by (simp add: fill_loop_Suc [OF nz] fill_body_def Let_def)
next
  fix k show "finalFilename \<noteq> regularFilename k" by (rule final_not_regular)
next
  assume e: "err = None"
  from gen_accounting [OF sane gen] e
  have b: "b = min 1048576 (availableSpace st)" and r: "r = availableSpace st - b"
    by (simp_all add: one_MB_bytes)
  from b show "b = min (1024 * 1024) (availableSpace st)" by simp
  from r show "r = availableSpace st - b" .
  from b nz show "0 < b" by (auto simp: min_def word_greater_zero_iff)
next
  assume a: "\<not> availableSpace st2 < 10 * 1024 * 1024 \<and> fill_body gfuel envs st2 = Some fl"
  then show "\<exists>s. fl = Continue s"
    by (auto simp: fill_body_def Let_def split: option.splits if_splits)
  from a show "\<exists>b2 e2. attempts (state_of fl) =
                       attempts st2 @ [(regularFilename (fileCount st2), b2, e2)]"
    by (auto simp: fill_body_def Let_def split: option.splits if_splits)
qed

theorem final_chunk_below_threshold_witness:
  "availableSpace (fill_init 8388608) \<noteq> 0 \<and>
   availableSpace (fill_init 8388608) < 10 * 1024 * 1024 \<and>
   write_sane genv_ok \<and>
   fill_loop (Suc 0) 10 (\<lambda>k. genv_ok) (fill_init 8388608) =
     Some \<lparr>fileCount = 0, availableSpace = 7340032, createdFiles = [finalFilename],
           attempts = [(finalFilename, 1048576, None)]\<rparr> \<and>
   (1048576::u64) = min (1024 * 1024) 8388608 \<and>
   \<not> availableSpace (fill_init 10485760) < 10 * 1024 * 1024 \<and>
   fill_body 10 (\<lambda>k. genv_ok) (fill_init 10485760) =
     Some (Continue \<lparr>fileCount = 1, availableSpace = 0,
           createdFiles = [''chaff/chaff_000000.dat''],
           attempts = [(''chaff/chaff_000000.dat'', 10485760, None)]\<rparr>) \<and>
   regularFilename (fileCount (fill_init 10485760)) = ''chaff/chaff_000000.dat''"
proof -
  have nz: "availableSpace (fill_init 8388608) \<noteq> 0" by (simp add: fill_init_def)
  have low: "availableSpace (fill_init 8388608) < 10 * 1024 * 1024" by (simp add: fill_init_def)
  have sane: "write_sane ((\<lambda>k. genv_ok) (fileCount (fill_init 8388608)))"
    by (simp add: gen_all_ok_sane [OF genv_ok_all_ok])
  have "unat (sizeBytes_of 1) \<le> 10 * chunkSize" by (simp add: one_MB_bytes chunkSize_def)
  from gen_ok_succeeds [OF genv_ok_all_ok this, of finalFilename 8388608] obtain tr where
    gen: "generateChaffFile 10 ((\<lambda>k. genv_ok) (fileCount (fill_init 8388608))) finalFilename 1
            (availableSpace (fill_init 8388608)) = Some ((7340032, 1048576, None), tr)"
    by (auto simp: one_MB_bytes fill_init_def)
  from final_chunk_below_threshold [OF nz low sane gen, of 0 "fill_init 10485760"
      "Continue \<lparr>fileCount = 1, availableSpace = 0,
           createdFiles = [''chaff/chaff_000000.dat''],
           attempts = [(''chaff/chaff_000000.dat'', 10485760, None)]\<rparr>"]
    nz low gen_all_ok_sane [OF genv_ok_all_ok] fill_body_10MB
  show ?thesis
    by (simp add: fill_init_def regularFilename_0)
qed

text \<open>
  Claim C4 as stated fails. With 8 MiB available the loop makes the one final file,
  under the name \<^verbatim>\<open>chaff_FINAL.dat\<close>, but asks for 1 MiB: the file has 1 MiB and 7 MiB
  stay unused. With exactly 10 MiB available the test \<^verbatim>\<open>availableSpace < 10*1024*1024\<close> is
  false, and the loop writes a regular numbered file of 10 MiB.
\<close>

theorem final_file_is_one_MiB:
  "fill_loop (Suc 0) (Suc 0) (\<lambda>k. genv_ok) (fill_init (8 * 1024 * 1024)) =
     Some \<lparr>fileCount = 0, availableSpace = 7 * 1024 * 1024,
           createdFiles = [''chaff/chaff_FINAL.dat''],
           attempts = [(''chaff/chaff_FINAL.dat'', 1024 * 1024, None)]\<rparr> \<and>
   fill_loop (Suc 0) 10 (\<lambda>k. genv_ok) (fill_init (10 * 1024 * 1024)) =
     Some \<lparr>fileCount = 1, availableSpace = 0,
           createdFiles = [''chaff/chaff_000000.dat''],
           attempts = [(''chaff/chaff_000000.dat'', 10 * 1024 * 1024, None)]\<rparr>"
  using fill_loop_8MB fill_loop_10MB by simp

text \<open>
  Claim C7. Throughout the fill loop the list of created files is exactly the list of
  the names of the attempts that returned no error and a count above 0, in the order
  of the attempts: this holds at the start, every iteration keeps it, and so it holds
  when the loop ends. An attempt that wrote nothing is never in the list, and the
  files that \<^verbatim>\<open>shredFiles\<close> is given are the files of that list.
\<close>

theorem createdFiles_only_written:
  "fill_inv (fill_init A) \<and>
   (fill_inv st \<and> fill_body gfuel envs st = Some fl \<longrightarrow> fill_inv (state_of fl)) \<and>
   (fill_loop fuel gfuel envs (fill_init A) = Some st' \<longrightarrow>
      createdFiles st' = recorded (attempts st') \<and>
      (\<forall>p \<in> set (createdFiles st'). \<exists>b. (p, b, None) \<in> set (attempts st') \<and> 0 < b) \<and>
      map fst (shredFiles senvs (createdFiles st')) = recorded (attempts st'))"
proof (intro conjI impI)
  show "fill_inv (fill_init A)" by (rule fill_inv_init)
next
  assume "fill_inv st \<and> fill_body gfuel envs st = Some fl"
  then show "fill_inv (state_of fl)" using fill_body_inv by blast
next
  assume run: "fill_loop fuel gfuel envs (fill_init A) = Some st'"
  from fill_loop_inv [OF fill_inv_init run] have i: "fill_inv st'" .
  then show "createdFiles st' = recorded (attempts st')" by (simp add: fill_inv_def)
  from i show "\<forall>p \<in> set (createdFiles st'). \<exists>b. (p, b, None) \<in> set (attempts st') \<and> 0 < b"
    using fill_inv_created by blast
  from i show "map fst (shredFiles senvs (createdFiles st')) = recorded (attempts st')"
    by (simp add: fill_inv_def shredFiles_paths)
qed

lemma fill_body_8MB:
  "fill_body (Suc 0) (\<lambda>k. genv_ok) (fill_init 8388608) =
     Some (Break \<lparr>fileCount = 0, availableSpace = 7340032,
           createdFiles = [''chaff/chaff_FINAL.dat''],
           attempts = [(''chaff/chaff_FINAL.dat'', 1048576, None)]\<rparr>)"
  by (simp add: fill_body_def fill_init_def gen_final_8MB)
     (simp add: finalFilename_eq)

theorem createdFiles_only_written_witness:
  "fill_inv (fill_init 8388608) \<and>
   fill_body (Suc 0) (\<lambda>k. genv_ok) (fill_init 8388608) =
     Some (Break \<lparr>fileCount = 0, availableSpace = 7340032,
           createdFiles = [''chaff/chaff_FINAL.dat''],
           attempts = [(''chaff/chaff_FINAL.dat'', 1048576, None)]\<rparr>) \<and>
   fill_inv \<lparr>fileCount = 0, availableSpace = 7340032,
           createdFiles = [''chaff/chaff_FINAL.dat''],
           attempts = [(''chaff/chaff_FINAL.dat'', 1048576, None)]\<rparr> \<and>
   fill_loop (Suc 0) (Suc 0) (\<lambda>k. genv_ok) (fill_init 8388608) =
     Some \<lparr>fileCount = 0, availableSpace = 7340032,
           createdFiles = [''chaff/chaff_FINAL.dat''],
           attempts = [(''chaff/chaff_FINAL.dat'', 1048576, None)]\<rparr> \<and>
   [''chaff/chaff_FINAL.dat''] = recorded [(''chaff/chaff_FINAL.dat'', 1048576 :: u64, None)]"
  using createdFiles_only_written [of 8388608 "fill_init 8388608" "Suc 0" "\<lambda>k. genv_ok"
      "Break \<lparr>fileCount = 0, availableSpace = 7340032,
           createdFiles = [''chaff/chaff_FINAL.dat''],
           attempts = [(''chaff/chaff_FINAL.dat'', 1048576, None)]\<rparr>" "Suc 0"
      "\<lparr>fileCount = 0, availableSpace = 7340032,
           createdFiles = [''chaff/chaff_FINAL.dat''],
           attempts = [(''chaff/chaff_FINAL.dat'', 1048576, None)]\<rparr>"]
    fill_body_8MB fill_loop_8MB
  by (simp add: fill_inv_def recorded_def fill_init_def)

text \<open>
  Claim C10. If every call of \<^verbatim>\<open>generateChaffFile\<close> returns without error, the fill loop
  ends: one iteration for every 10 MiB of available space and one more are enough, and
  it ends with less than 10 MiB tracked. An iteration that starts with 10 MiB or more
  lowers the tracked space by the minimum of 100 MiB and the space, which is at least
  10 MiB.
\<close>

theorem fill_loop_terminates:
  assumes nf: "gen_never_fails gfuel envs"
    and fuel: "unat (availableSpace st) div (10 * 1024 * 1024) < fuel"
  shows "(\<exists>st'. fill_loop fuel gfuel envs st = Some st' \<and> availableSpace st' < 10 * 1024 * 1024) \<and>
         (\<not> availableSpace st < 10 * 1024 * 1024 \<longrightarrow>
            (\<exists>st'. fill_body gfuel envs st = Some (Continue st') \<and>
               availableSpace st' = availableSpace st - min (100 * 1024 * 1024) (availableSpace st) \<and>
               unat (availableSpace st') + 10 * 1024 * 1024 \<le> unat (availableSpace st)))"
proof (intro conjI impI)
  from fuel have "unat (availableSpace st) div 10485760 < fuel" by simp
  from fill_loop_terminates_aux [OF nf this]
  show "\<exists>st'. fill_loop fuel gfuel envs st = Some st' \<and> availableSpace st' < 10 * 1024 * 1024"
    by simp
next
  assume "\<not> availableSpace st < 10 * 1024 * 1024"
  then have big: "\<not> availableSpace st < 10485760" by simp
  from nf obtain r b tr where
    g: "generateChaffFile gfuel (envs (fileCount st)) (regularFilename (fileCount st))
          fileSizeMB (availableSpace st) = Some ((r, b, None), tr)"
    unfolding gen_never_fails_def by blast
  from fill_body_regular [where envs = envs, OF big g] regular_decrease [OF big]
  show "\<exists>st'. fill_body gfuel envs st = Some (Continue st') \<and>
               availableSpace st' = availableSpace st - min (100 * 1024 * 1024) (availableSpace st) \<and>
               unat (availableSpace st') + 10 * 1024 * 1024 \<le> unat (availableSpace st)"
    by simp
qed

theorem fill_loop_terminates_witness:
  "gen_never_fails 100 (\<lambda>k. genv_ok) \<and>
   unat (availableSpace (fill_init 12582912)) div (10 * 1024 * 1024) < Suc (Suc 0) \<and>
   (\<exists>st'. fill_loop (Suc (Suc 0)) 100 (\<lambda>k. genv_ok) (fill_init 12582912) = Some st' \<and>
          availableSpace st' < 10 * 1024 * 1024) \<and>
   \<not> availableSpace (fill_init 12582912) < 10 * 1024 * 1024 \<and>
   (\<exists>st'. fill_body 100 (\<lambda>k. genv_ok) (fill_init 12582912) = Some (Continue st') \<and>
          availableSpace st' = 12582912 - min (100 * 1024 * 1024) 12582912 \<and>
          unat (availableSpace st') + 10 * 1024 * 1024 \<le> unat (12582912 :: u64))"
proof -
  have f: "unat (availableSpace (fill_init 12582912)) div (10 * 1024 * 1024) < Suc (Suc 0)"
    by (simp add: fill_init_def)
  have big: "\<not> availableSpace (fill_init 12582912) < 10 * 1024 * 1024"
    by (simp add: fill_init_def)
  from fill_loop_terminates [OF genv_ok_never_fails f] big genv_ok_never_fails f
  show ?thesis by (simp add: fill_init_def)
qed


end
